theory Spec2Isabelle
  imports Main
begin

section \<open>JavaScript strings and arrays\<close>

text \<open>
  A JavaScript string is a sequence of code units. The model uses \<^typ>\<open>string\<close>
  (lists of 8-bit characters), so it covers the strings whose code units are below 256;
  font names, configuration values and command output are read as such.
  \<^verbatim>\<open>undefined\<close> for a value of type \<^verbatim>\<open>string | undefined\<close> is \<^term>\<open>None\<close>.
\<close>

text \<open>White space as \<^verbatim>\<open>String.prototype.trim\<close> and the pattern class \<^verbatim>\<open>\s\<close> read it:
  TAB, LF, VT, FF, CR, SP and NBSP are the white space and line terminator code units
  below 256.\<close>

definition isWhiteSpace :: "char \<Rightarrow> bool" where
  "isWhiteSpace c =
     (c = CHR 0x09 \<or> c = CHR 0x0A \<or> c = CHR 0x0B \<or> c = CHR 0x0C \<or> c = CHR 0x0D \<or>
      c = CHR 0x20 \<or> c = CHR 0xA0)"

definition isLineTerminator :: "char \<Rightarrow> bool" where
  "isLineTerminator c = (c = CHR 0x0A \<or> c = CHR 0x0D)"

text \<open>A condition on a \<^verbatim>\<open>string | undefined\<close>: \<^verbatim>\<open>undefined\<close> and the empty string
  are falsy.\<close>

fun truthy :: "string option \<Rightarrow> bool" where
  "truthy None = False"
| "truthy (Some s) = (s \<noteq> [])"

definition trim :: "string \<Rightarrow> string" where
  "trim s = rev (dropWhile isWhiteSpace (rev (dropWhile isWhiteSpace s)))"

text \<open>\<^verbatim>\<open>s.split(c)\<close> with a one-character separator: the pieces between the
  separators, the empty string giving one empty piece.\<close>

fun split :: "string \<Rightarrow> char \<Rightarrow> string list" where
  "split [] sep = [[]]"
| "split (c # cs) sep =
     (if c = sep then [] # split cs sep
      else (case split cs sep of [] \<Rightarrow> [[c]] | piece # pieces \<Rightarrow> (c # piece) # pieces))"

fun join :: "string list \<Rightarrow> string \<Rightarrow> string" where
  "join [] sep = []"
| "join [x] sep = x"
| "join (x # y # ys) sep = x @ sep @ join (y # ys) sep"

definition startsWith :: "string \<Rightarrow> string \<Rightarrow> bool" where
  "startsWith s p = (take (length p) s = p)"

fun includes_str :: "string \<Rightarrow> string \<Rightarrow> bool" where
  "includes_str [] p = (p = [])"
| "includes_str (c # cs) p = (startsWith (c # cs) p \<or> includes_str cs p)"

text \<open>\<^verbatim>\<open>toLowerCase\<close> on code units below 256: A-Z and the Latin-1 capitals
  (0xC0-0xDE without the multiplication sign 0xD7) move up by 32.\<close>

definition toLowerCase_char :: "char \<Rightarrow> char" where
  "toLowerCase_char c =
     (let n = (of_char c :: nat) in
      if (65 \<le> n \<and> n \<le> 90) \<or> (192 \<le> n \<and> n \<le> 222 \<and> n \<noteq> 215)
      then char_of (n + 32) else c)"

definition toLowerCase :: "string \<Rightarrow> string" where
  "toLowerCase s = map toLowerCase_char s"

text \<open>\<^verbatim>\<open>s.replace(pat, rep)\<close> with a string pattern replaces the first occurrence only.\<close>

fun replace :: "string \<Rightarrow> string \<Rightarrow> string \<Rightarrow> string" where
  "replace [] pat rep = (if pat = [] then rep else [])"
| "replace (c # cs) pat rep =
     (if startsWith (c # cs) pat then rep @ drop (length pat) (c # cs)
      else c # replace cs pat rep)"

text \<open>\<^verbatim>\<open>a.indexOf(v)\<close>: the first index holding \<open>v\<close>, or -1. \<open>next_index\<close> moves a
  result found in the tail of the array one place up.\<close>

definition next_index :: "int \<Rightarrow> int" where
  "next_index r = (if r < 0 then - 1 else r + 1)"

fun indexOf :: "'a list \<Rightarrow> 'a \<Rightarrow> int" where
  "indexOf [] v = - 1"
| "indexOf (x # xs) v = (if x = v then 0 else next_index (indexOf xs v))"

text \<open>\<^verbatim>\<open>a.findIndex(p)\<close>: the first index whose element satisfies \<open>p\<close>, or -1.\<close>

fun findIndex :: "'a list \<Rightarrow> ('a \<Rightarrow> bool) \<Rightarrow> int" where
  "findIndex [] p = - 1"
| "findIndex (x # xs) p = (if p x then 0 else next_index (findIndex xs p))"

text \<open>\<^verbatim>\<open>a.filter((v, i, a) => ...)\<close>: the callback sees the element, its index and
  the array.\<close>

fun filter_from :: "('a \<Rightarrow> int \<Rightarrow> 'a list \<Rightarrow> bool) \<Rightarrow> 'a list \<Rightarrow> int \<Rightarrow> 'a list \<Rightarrow> 'a list" where
  "filter_from p a i [] = []"
| "filter_from p a i (v # vs) = (if p v i a then v # filter_from p a (i + 1) vs
     else filter_from p a (i + 1) vs)"

definition filter_via :: "('a \<Rightarrow> int \<Rightarrow> 'a list \<Rightarrow> bool) \<Rightarrow> 'a list \<Rightarrow> 'a list" where
  "filter_via p a = filter_from p a 0 a"

text \<open>A \<^verbatim>\<open>Set<string>\<close> is iterated in insertion order: a list without duplicates, to
  which \<^verbatim>\<open>add\<close> appends a value that is not in it yet. \<^verbatim>\<open>Array.from\<close> returns that
  list.\<close>

definition Set_add :: "'a list \<Rightarrow> 'a \<Rightarrow> 'a list" where
  "Set_add fonts x = (if x \<in> set fonts then fonts else fonts @ [x])"

text \<open>The order-preserving removal of duplicates that the specification speaks of: the
  first occurrence of every value stays, in place.\<close>

fun dedup_first :: "'a list \<Rightarrow> 'a list" where
  "dedup_first [] = []"
| "dedup_first (x # xs) = x # filter (\<lambda>v. v \<noteq> x) (dedup_first xs)"

text \<open>The same removal with the set of values seen so far, as a loop would run it.\<close>

fun keep_first :: "'a set \<Rightarrow> 'a list \<Rightarrow> 'a list" where
  "keep_first seen [] = []"
| "keep_first seen (x # xs) =
     (if x \<in> seen then keep_first seen xs else x # keep_first (insert x seen) xs)"

text \<open>
  The pattern of \<^verbatim>\<open>parseMonospacedFonts\<close> is a sequence of assertions, literal
  characters, greedy repetitions of a character class and group brackets. \<open>Rep cls n\<close> is
  the class repeated at least \<open>n\<close> times.
\<close>

datatype piece =
    LineStart
  | LineEnd
  | Chars string
  | Rep "char \<Rightarrow> bool" nat
  | GroupOpen nat
  | GroupClose nat

type_synonym captures = "nat \<rightharpoonup> string"

text \<open>A position in the input is the rest of the input from there on, with the code
  unit just before it (none at the start): the multiline \<^verbatim>\<open>^\<close> looks at the unit
  before, \<^verbatim>\<open>$\<close> at the unit after.\<close>

definition prev_after :: "char option \<Rightarrow> string \<Rightarrow> nat \<Rightarrow> char option" where
  "prev_after prev s n = (case rev (take n s) of [] \<Rightarrow> prev | c # _ \<Rightarrow> Some c)"

text \<open>A greedy repetition tries the longest run first and gives back one code unit at a
  time while the rest of the pattern fails.\<close>

fun try_down :: "(nat \<Rightarrow> 'a option) \<Rightarrow> nat \<Rightarrow> nat \<Rightarrow> 'a option" where
  "try_down k mn 0 = (if mn = 0 then k 0 else None)"
| "try_down k mn (Suc n) =
     (if Suc n < mn then None
      else (case k (Suc n) of Some r \<Rightarrow> Some r | None \<Rightarrow> try_down k mn n))"

text \<open>Matching at one position, by backtracking: the captures, and the position where
  the match ends.\<close>

fun rmatch :: "piece list \<Rightarrow> char option \<Rightarrow> string \<Rightarrow> captures \<Rightarrow> captures
    \<Rightarrow> (captures \<times> char option \<times> string) option" where
  "rmatch [] prev s opens caps = Some (caps, prev, s)"
| "rmatch (LineStart # ps) prev s opens caps =
     (if (case prev of None \<Rightarrow> True | Some c \<Rightarrow> isLineTerminator c)
      then rmatch ps prev s opens caps else None)"
| "rmatch (LineEnd # ps) prev s opens caps =
     (if (case s of [] \<Rightarrow> True | c # _ \<Rightarrow> isLineTerminator c)
      then rmatch ps prev s opens caps else None)"
| "rmatch (Chars lit # ps) prev s opens caps =
     (if startsWith s lit
      then rmatch ps (prev_after prev s (length lit)) (drop (length lit) s) opens caps
      else None)"
| "rmatch (Rep cls mn # ps) prev s opens caps =
     try_down (\<lambda>n. rmatch ps (prev_after prev s n) (drop n s) opens caps) mn
       (length (takeWhile cls s))"
| "rmatch (GroupOpen g # ps) prev s opens caps = rmatch ps prev s (opens(g \<mapsto> s)) caps"
| "rmatch (GroupClose g # ps) prev s opens caps =
     rmatch ps prev s opens
       (caps(g \<mapsto> (case opens g of None \<Rightarrow> [] | Some t \<Rightarrow> take (length t - length s) t)))"

text \<open>The least number of code units a match of the pattern takes.\<close>

fun min_len :: "piece list \<Rightarrow> nat" where
  "min_len [] = 0"
| "min_len (Chars lit # ps) = length lit + min_len ps"
| "min_len (Rep cls mn # ps) = mn + min_len ps"
| "min_len (p # ps) = min_len ps"

text \<open>\<^verbatim>\<open>/^\s*([^\s]+)\s+REG_SZ\s+(.*\.ttf)$/gm\<close>\<close>

definition regex :: "piece list" where
  "regex =
     [LineStart, Rep isWhiteSpace 0,
      GroupOpen 1, Rep (\<lambda>c. \<not> isWhiteSpace c) 1, GroupClose 1,
      Rep isWhiteSpace 1, Chars ''REG_SZ'', Rep isWhiteSpace 1,
      GroupOpen 2, Rep (\<lambda>c. \<not> isLineTerminator c) 0, Chars ''.ttf'', GroupClose 2,
      LineEnd]"

text \<open>\<^verbatim>\<open>regex.exec(output)\<close> with the global flag searches from \<^verbatim>\<open>lastIndex\<close> on: the
  first position where the pattern matches. The match leaves \<^verbatim>\<open>lastIndex\<close> at its
  end.\<close>

fun regex_exec :: "piece list \<Rightarrow> char option \<Rightarrow> string
    \<Rightarrow> (captures \<times> char option \<times> string) option" where
  "regex_exec r prev [] = rmatch r prev [] Map.empty Map.empty"
| "regex_exec r prev (c # cs) =
     (case rmatch r prev (c # cs) Map.empty Map.empty of
        Some m \<Rightarrow> Some m
      | None \<Rightarrow> regex_exec r (Some c) cs)"

text \<open>The loop \<^verbatim>\<open>while ((match = regex.exec(output)) !== null)\<close> of lines 34-38, with
  the set of fonts collected so far. It ends because every match takes at least the six
  code units of \<^verbatim>\<open>REG_SZ\<close>, so \<^verbatim>\<open>lastIndex\<close> grows. The first group is part of every
  match (lemma \<open>match_has_name\<close>), so the case of an undefined \<^verbatim>\<open>match[1]\<close> does not
  arise.\<close>

function match_loop :: "char option \<Rightarrow> string \<Rightarrow> string list \<Rightarrow> string list" where
  "match_loop prev s fonts =
     (case regex_exec regex prev s of
        None \<Rightarrow> fonts
      | Some (match, prev', rest) \<Rightarrow>
          (case match 1 of
             None \<Rightarrow> match_loop prev' rest fonts
           | Some name \<Rightarrow>
               match_loop prev' rest
                 (if includes_str (toLowerCase name) ''mono'' then Set_add fonts name
                  else fonts)))"
  by pat_completeness auto
termination
proof (relation "measure (\<lambda>(prev, s, fonts). length s)")
  have down: "\<exists>m \<le> n. mn \<le> m \<and> k m = Some r" if "try_down k mn n = Some r"
    for k :: "nat \<Rightarrow> (captures \<times> char option \<times> string) option" and mn n r
    using that
  proof (induction n)
    case 0
    then show ?case by (auto split: if_splits)
  next
    case (Suc n)
    show ?case
    proof (cases "k (Suc n)")
      case None
      with Suc.prems have "try_down k mn n = Some r" by (auto split: if_splits)
      from Suc.IH [OF this] show ?thesis by (auto intro: le_SucI)
    next
      case (Some a)
      with Suc.prems have "a = r" "mn \<le> Suc n" by (auto split: if_splits)
      with Some show ?thesis by auto
    qed
  qed
  have consumed: "length rest + min_len ps \<le> length s"
    if "rmatch ps prev s opens caps = Some (match, prev', rest)"
    for ps prev s opens caps match prev' rest
    using that
  proof (induction ps arbitrary: prev s opens caps)
    case Nil
    then show ?case by simp
  next
    case (Cons p ps)
    show ?case
    proof (cases p)
      case (Chars lit)
      with Cons.prems have sw: "startsWith s lit"
        and m: "rmatch ps (prev_after prev s (length lit)) (drop (length lit) s) opens caps
             = Some (match, prev', rest)"
        by (auto split: if_splits)
      from sw have "length lit \<le> length s"
        unfolding startsWith_def by (metis length_take min.cobounded1 min.commute)
      with Cons.IH [OF m] Chars show ?thesis by simp
    next
      case (Rep cls mn)
      with Cons.prems have "try_down (\<lambda>n. rmatch ps (prev_after prev s n) (drop n s) opens caps)
          mn (length (takeWhile cls s)) = Some (match, prev', rest)"
        by simp
      from down [OF this] obtain m where "mn \<le> m" "m \<le> length (takeWhile cls s)"
        and m: "rmatch ps (prev_after prev s m) (drop m s) opens caps = Some (match, prev', rest)"
        by blast
      moreover have "length (takeWhile cls s) \<le> length s"
        by (rule length_takeWhile_le)
      ultimately show ?thesis using Cons.IH [OF m] Rep by simp
    next
      case LineStart
      with Cons.prems have "rmatch ps prev s opens caps = Some (match, prev', rest)"
        by (simp split: if_splits)
      from Cons.IH [OF this] LineStart show ?thesis by simp
    next
      case LineEnd
      with Cons.prems have "rmatch ps prev s opens caps = Some (match, prev', rest)"
        by (simp split: if_splits)
      from Cons.IH [OF this] LineEnd show ?thesis by simp
    next
      case (GroupOpen g)
      with Cons.prems have "rmatch ps prev s (opens(g \<mapsto> s)) caps = Some (match, prev', rest)"
        by simp
      from Cons.IH [OF this] GroupOpen show ?thesis by simp
    next
      case (GroupClose g)
      with Cons.prems have "\<exists>c. rmatch ps prev s opens c = Some (match, prev', rest)"
        by auto
      then obtain c where "rmatch ps prev s opens c = Some (match, prev', rest)" ..
      from Cons.IH [OF this] GroupClose show ?thesis by simp
    qed
  qed
  have found: "length rest < length s"
    if "regex_exec regex prev s = Some (match, prev', rest)" for prev s match prev' rest
    using that
  proof (induction s arbitrary: prev)
    case Nil
    then have "rmatch regex prev [] Map.empty Map.empty = Some (match, prev', rest)" by simp
    from consumed [OF this] show ?case by (simp add: regex_def)
  next
    case (Cons c cs)
    show ?case
    proof (cases "rmatch regex prev (c # cs) Map.empty Map.empty")
      case None
      with Cons.prems have "regex_exec regex (Some c) cs = Some (match, prev', rest)" by simp
      from Cons.IH [OF this] show ?thesis by simp
    next
      case (Some a)
      with Cons.prems have "rmatch regex prev (c # cs) Map.empty Map.empty = Some (match, prev', rest)"
        by simp
      from consumed [OF this] show ?thesis by (simp add: regex_def)
    qed
  qed
  show "wf (measure (\<lambda>(prev, s, fonts). length s))" by simp
  show "((prev', rest, fonts), (prev, s, fonts)) \<in> measure (\<lambda>(prev, s, fonts). length s)"
    if "regex_exec regex prev s = Some x" "(match, y) = x" "(prev', rest) = y"
    for prev s fonts x match y prev' rest
  proof -
    from that have "regex_exec regex prev s = Some (match, prev', rest)" by simp
    from found [OF this] show ?thesis by simp
  qed
  show "((prev', rest, if includes_str (toLowerCase name) ''mono'' then Set_add fonts name else fonts),
      (prev, s, fonts)) \<in> measure (\<lambda>(prev, s, fonts). length s)"
    if "regex_exec regex prev s = Some x" "(match, y) = x" "(prev', rest) = y"
    for prev s fonts x match y prev' rest name
  proof -
    from that have "regex_exec regex prev s = Some (match, prev', rest)" by simp
    from found [OF this] show ?thesis by simp
  qed
qed


section \<open>Font enumeration\<close>

definition parseMonospacedFonts :: "string \<Rightarrow> string \<Rightarrow> string list" where
  "parseMonospacedFonts output platform =
     (if platform = ''win32'' then match_loop None output []
      else if platform = ''darwin'' \<or> platform = ''linux'' then
        foldl (\<lambda>fonts line.
                 if line \<noteq> [] \<and> \<not> startsWith line ''.'' then Set_add fonts (trim line)
                 else fonts)
          [] (split output (CHR 0x0A))
      else [])"

text \<open>The value of a string literal of the source: a backslash makes an escape sequence
  with the character after it. The single-character escapes have their values; any
  other character stands for itself. (Hexadecimal, Unicode and octal escapes are not
  modelled; the literals of this program have none.)\<close>

definition escapeValue :: "char \<Rightarrow> char" where
  "escapeValue c =
     (if c = CHR ''n'' then CHR 0x0A else if c = CHR ''t'' then CHR 0x09
      else if c = CHR ''r'' then CHR 0x0D else if c = CHR ''b'' then CHR 0x08
      else if c = CHR ''f'' then CHR 0x0C else if c = CHR ''v'' then CHR 0x0B
      else c)"

fun stringValue :: "bool \<Rightarrow> string \<Rightarrow> string" where
  "stringValue escaped [] = []"
| "stringValue False (c # cs) =
     (if c = CHR 0x5C then stringValue True cs else c # stringValue False cs)"
| "stringValue True (c # cs) = escapeValue c # stringValue False cs"

text \<open>The two command literals as they stand in the source (lines 11 and 13), backslashes
  included; \<open>CHR 0x22\<close> is the double quote and \<open>CHR 0x5C\<close> the backslash.\<close>

definition win32_literal :: string where
  "win32_literal =
     ''reg query '' @ [CHR 0x22] @ ''HKLM'' @ [CHR 0x5C] @ ''SOFTWARE'' @ [CHR 0x5C] @
     ''Microsoft'' @ [CHR 0x5C] @ ''Windows NT'' @ [CHR 0x5C] @ ''CurrentVersion'' @
     [CHR 0x5C] @ ''Fonts'' @ [CHR 0x22] @ '' /s''"

definition unix_literal :: string where
  "unix_literal =
     ''fc-list :spacing=mono --format='' @ [CHR 0x22] @ ''%{family[0]}'' @ [CHR 0x5C] @
     ''n'' @ [CHR 0x22] @ '' | sort | uniq''"

definition command :: "string \<Rightarrow> string" where
  "command platform =
     (if platform = ''win32'' then stringValue False win32_literal
      else if platform = ''darwin'' \<or> platform = ''linux'' then stringValue False unix_literal
      else [])"

text \<open>
  \<^verbatim>\<open>child_process.exec\<close>. What the operating system does with a command is a parameter:
  the child exits with a code and its standard output, or cannot be run at all. Node
  refuses an empty command before it starts anything (it throws
  \<^verbatim>\<open>ERR_INVALID_ARG_VALUE\<close>); otherwise the callback receives an error when the exit code
  is not zero, when the output has more bytes than \<^verbatim>\<open>maxBuffer\<close> or when the child could
  not be run. Node counts the bytes of the output in UTF-8: one for a code unit below
  128 and two for the others below 256. The standard error output of the child is not
  part of the model: Node's message of a failed command goes on, after the command, with
  a line feed and that output, and the message here ends with the command. The output
  that comes with an error is cut off; the promise does not read it.
\<close>

definition byteLength :: "string \<Rightarrow> nat" where
  "byteLength s = length s + length (filter (\<lambda>c. 128 \<le> (of_char c :: nat)) s)"

datatype error =
    ERR_INVALID_ARG_VALUE
  | ERR_CHILD_PROCESS_STDIO_MAXBUFFER
  | CommandFailed string nat
  | SpawnFailed string

fun message :: "error \<Rightarrow> string" where
  "message ERR_INVALID_ARG_VALUE =
     ''The argument '' @ [CHR 0x27] @ ''file'' @ [CHR 0x27] @ '' cannot be empty. Received '' @
     [CHR 0x27, CHR 0x27]"
| "message ERR_CHILD_PROCESS_STDIO_MAXBUFFER = ''stdout maxBuffer length exceeded''"
| "message (CommandFailed cmd code) = ''Command failed: '' @ cmd"
| "message (SpawnFailed msg) = msg"

datatype child = Exited nat string | NotRun string

text \<open>\<open>Inl\<close>: \<^verbatim>\<open>exec\<close> throws. \<open>Inr\<close>: the arguments of the callback.\<close>

definition exec :: "string \<Rightarrow> nat \<Rightarrow> (string \<Rightarrow> child) \<Rightarrow> error + (error option \<times> string)" where
  "exec cmd maxBuffer os =
     (if cmd = [] then Inl ERR_INVALID_ARG_VALUE
      else Inr (case os cmd of
                  Exited code stdout \<Rightarrow>
                    (if maxBuffer < byteLength stdout
                     then (Some ERR_CHILD_PROCESS_STDIO_MAXBUFFER, take maxBuffer stdout)
                     else if code = 0 then (None, stdout)
                     else (Some (CommandFailed cmd code), stdout))
                | NotRun msg \<Rightarrow> (Some (SpawnFailed msg), [])))"

text \<open>The promise of \<^verbatim>\<open>getMonospacedFonts\<close>: rejected (\<open>Inl\<close>) when the executor throws
  inside the promise or when the callback has an error, resolved (\<open>Inr\<close>) with the parsed
  fonts otherwise.\<close>

definition getMonospacedFonts :: "string \<Rightarrow> (string \<Rightarrow> child) \<Rightarrow> error + string list" where
  "getMonospacedFonts platform os =
     (case exec (command platform) (1024 * 1024) os of
        Inl thrown \<Rightarrow> Inl thrown
      | Inr (Some error, stdout) \<Rightarrow> Inl error
      | Inr (None, stdout) \<Rightarrow> Inr (parseMonospacedFonts stdout platform))"

section \<open>Live preview of the font family\<close>

text \<open>
  Both controllers compute the previewed value in the same way
  (\<^verbatim>\<open>src/extension.ts\<close> lines 73-75, the refactored controller lines 78-80):
  \<^verbatim>\<open>
  [selectedFont, ...(originalFont ? originalFont.split(',').map(f => f.trim()) : [])]
      .filter((v, i, a) => a.indexOf(v) === i)
      .join(', ')
  \<close>
\<close>

definition fallbackChain :: "string option \<Rightarrow> string list" where
  "fallbackChain originalFont =
     (case originalFont of
        Some f \<Rightarrow> (if truthy originalFont then map trim (split f (CHR '','')) else [])
      | None \<Rightarrow> [])"

definition updatedFontFamily :: "string \<Rightarrow> string option \<Rightarrow> string" where
  "updatedFontFamily selectedFont originalFont =
     join (filter_via (\<lambda>v i a. indexOf a v = i) (selectedFont # fallbackChain originalFont))
       '', ''"

section \<open>The editor\<close>

text \<open>
  The extension works on three capabilities of the editor: the configuration section
  \<^verbatim>\<open>editor\<close> (a map from keys to values, written at the global target), quick picks and
  error notifications. An item of a quick pick is its label. The state of one run of the
  command holds the configuration, the two quick picks once they are created, the
  variables the listeners close over, and the calls made on the editor so far.
\<close>

datatype picker = Font | Weight

datatype call =
    ConfigGet string
  | ConfigUpdate string string
  | ShowErrorMessage string
  | CreateQuickPick picker
  | SetActiveItems picker "string list"
  | ShowPick picker
  | HidePick picker
  | DisposePick picker

record quickPick =
  items :: "string list"
  placeholder :: string
  activeItems :: "string list"
  selectedItems :: "string list"
  visible :: bool
  disposed :: bool

record editor =
  config :: "string \<rightharpoonup> string"
  originalFont :: "string option"
  lastActiveFontIndex :: "int option"
  fontQuickPick :: "quickPick option"
  weightQuickPick :: "quickPick option"
  calls :: "call list"

definition initial :: "(string \<rightharpoonup> string) \<Rightarrow> editor" where
  "initial settings =
     \<lparr>config = settings, originalFont = None, lastActiveFontIndex = None,
      fontQuickPick = None, weightQuickPick = None, calls = []\<rparr>"

definition called :: "call \<Rightarrow> editor \<Rightarrow> editor" where
  "called c s = s\<lparr>calls := calls s @ [c]\<rparr>"

fun picker_of :: "picker \<Rightarrow> editor \<Rightarrow> quickPick option" where
  "picker_of Font s = fontQuickPick s"
| "picker_of Weight s = weightQuickPick s"

fun put_picker :: "picker \<Rightarrow> quickPick \<Rightarrow> editor \<Rightarrow> editor" where
  "put_picker Font q s = s\<lparr>fontQuickPick := Some q\<rparr>"
| "put_picker Weight q s = s\<lparr>weightQuickPick := Some q\<rparr>"

definition modify :: "picker \<Rightarrow> (quickPick \<Rightarrow> quickPick) \<Rightarrow> editor \<Rightarrow> editor" where
  "modify p f s = (case picker_of p s of None \<Rightarrow> s | Some q \<Rightarrow> put_picker p (f q) s)"

fun other :: "picker \<Rightarrow> picker" where
  "other Font = Weight"
| "other Weight = Font"

text \<open>A quick pick is live until it is disposed, and on screen while it is live and
  visible.\<close>

definition live :: "picker \<Rightarrow> editor \<Rightarrow> bool" where
  "live p s = (case picker_of p s of None \<Rightarrow> False | Some q \<Rightarrow> \<not> disposed q)"

definition shown :: "picker \<Rightarrow> editor \<Rightarrow> bool" where
  "shown p s = (case picker_of p s of None \<Rightarrow> False | Some q \<Rightarrow> \<not> disposed q \<and> visible q)"

definition selected :: "picker \<Rightarrow> editor \<Rightarrow> string list" where
  "selected p s = (case picker_of p s of None \<Rightarrow> [] | Some q \<Rightarrow> selectedItems q)"

text \<open>\<^verbatim>\<open>xs[0]?.label\<close>\<close>

fun first_label :: "string list \<Rightarrow> string option" where
  "first_label [] = None"
| "first_label (x # xs) = Some x"

definition config_get :: "string \<Rightarrow> editor \<Rightarrow> editor" where
  "config_get key s = called (ConfigGet key) s"

definition config_update :: "string \<Rightarrow> string \<Rightarrow> editor \<Rightarrow> editor" where
  "config_update key v s = called (ConfigUpdate key v) (s\<lparr>config := (config s)(key \<mapsto> v)\<rparr>)"

definition showErrorMessage :: "string \<Rightarrow> editor \<Rightarrow> editor" where
  "showErrorMessage msg s = called (ShowErrorMessage msg) s"

definition createQuickPick :: "picker \<Rightarrow> editor \<Rightarrow> editor" where
  "createQuickPick p s =
     put_picker p
       \<lparr>items = [], placeholder = [], activeItems = [], selectedItems = [],
        visible = False, disposed = False\<rparr>
       (called (CreateQuickPick p) s)"

text \<open>
  \<^verbatim>\<open>show()\<close> puts a live quick pick on screen, and the editor takes the other one off
  (one input is on screen at a time). \<^verbatim>\<open>hide()\<close> takes a live quick pick off screen.
  \<^verbatim>\<open>dispose()\<close> releases it; a disposed quick pick is no longer functional: its methods
  do nothing and no event reaches its listeners.
\<close>

definition quickPick_show :: "picker \<Rightarrow> editor \<Rightarrow> editor" where
  "quickPick_show p s =
     (let s1 = called (ShowPick p) s in
      if live p s1
      then modify p (\<lambda>q. q\<lparr>visible := True\<rparr>) (modify (other p) (\<lambda>q. q\<lparr>visible := False\<rparr>) s1)
      else s1)"

definition quickPick_hide :: "picker \<Rightarrow> editor \<Rightarrow> editor" where
  "quickPick_hide p s =
     (let s1 = called (HidePick p) s in
      if live p s1 then modify p (\<lambda>q. q\<lparr>visible := False\<rparr>) s1 else s1)"

definition quickPick_dispose :: "picker \<Rightarrow> editor \<Rightarrow> editor" where
  "quickPick_dispose p s =
     modify p (\<lambda>q. q\<lparr>visible := False, disposed := True\<rparr>) (called (DisposePick p) s)"

section \<open>The refactored controller\<close>

text \<open>The second source file: \<^verbatim>\<open>handleFontSelection\<close>, \<^verbatim>\<open>handleWeightSelection\<close> and the
  command. Line numbers are those of that file.\<close>

definition fontWeights :: "string list" where
  "fontWeights =
     [''normal'', ''bold'', ''100'', ''200'', ''300'', ''400'', ''500'', ''600'', ''700'',
      ''800'', ''900'']"

text \<open>\<^verbatim>\<open>fontQuickPick.items[lastActiveFontIndex]\<close> in a one-element array; out of range the
  element is \<^verbatim>\<open>undefined\<close> and no item becomes active.\<close>

definition item_at :: "string list \<Rightarrow> int \<Rightarrow> string list" where
  "item_at xs i = (if 0 \<le> i \<and> i < int (length xs) then [xs ! nat i] else [])"

text \<open>Lines 112-116.\<close>

definition applyWeight :: "string option \<Rightarrow> editor \<Rightarrow> editor" where
  "applyWeight weight s =
     (case weight of
        Some w \<Rightarrow> (if truthy weight then config_update ''fontWeight'' w s else s)
      | None \<Rightarrow> s)"

text \<open>Lines 119-122.\<close>

definition weightQuickPick_onDidChangeActive :: "string list \<Rightarrow> editor \<Rightarrow> editor" where
  "weightQuickPick_onDidChangeActive weightItems s =
     (let selectedWeight = first_label weightItems in applyWeight selectedWeight s)"

text \<open>Lines 125-129.\<close>

definition weightQuickPick_onDidAccept :: "editor \<Rightarrow> editor" where
  "weightQuickPick_onDidAccept s =
     (let selectedWeight = first_label (selected Weight s) in
      quickPick_dispose Weight (applyWeight selectedWeight s))"

text \<open>Lines 132-137.\<close>

definition weightQuickPick_onDidHide :: "editor \<Rightarrow> editor" where
  "weightQuickPick_onDidHide s =
     quickPick_dispose Weight
       (if length (selected Weight s) = 0 then quickPick_show Font s else s)"

text \<open>Lines 105-141: the weight picker is created and shown, and the font picker
  hidden.\<close>

definition handleWeightSelection :: "string \<Rightarrow> editor \<Rightarrow> editor" where
  "handleWeightSelection selectedFont s =
     (let s1 = createQuickPick Weight s;
          s2 = modify Weight
                 (\<lambda>q. q\<lparr>items := fontWeights,
                        placeholder := ''Select a font weight for '' @ selectedFont\<rparr>) s1;
          s3 = quickPick_show Weight s2
      in quickPick_hide Font s3)"

text \<open>Lines 74-83.\<close>

definition fontQuickPick_onDidChangeActive :: "string list \<Rightarrow> editor \<Rightarrow> editor" where
  "fontQuickPick_onDidChangeActive its s =
     (case its of
        [] \<Rightarrow> s
      | label # others \<Rightarrow>
          (let selectedFont = trim (replace label ''Current Font: '' []);
               s1 = s\<lparr>lastActiveFontIndex :=
                        Some (findIndex (case fontQuickPick s of None \<Rightarrow> [] | Some q \<Rightarrow> items q)
                                (\<lambda>item. item = label))\<rparr>
           in config_update ''fontFamily'' (updatedFontFamily selectedFont (originalFont s1)) s1))"

text \<open>Lines 86-91.\<close>

definition fontQuickPick_onDidAccept :: "editor \<Rightarrow> editor" where
  "fontQuickPick_onDidAccept s =
     (let selectedFont =
            map_option (\<lambda>label. trim (replace label ''Current Font: '' []))
              (first_label (selected Font s))
      in case selectedFont of
           Some f \<Rightarrow> (if truthy selectedFont then handleWeightSelection f s else s)
         | None \<Rightarrow> s)"

text \<open>Lines 94-99.\<close>

definition fontQuickPick_onDidHide :: "editor \<Rightarrow> editor" where
  "fontQuickPick_onDidHide s =
     quickPick_dispose Font
       (case originalFont s of
          Some f \<Rightarrow>
            (if length (selected Font s) = 0 \<and> truthy (originalFont s)
             then config_update ''fontFamily'' f s else s)
        | None \<Rightarrow> s)"

text \<open>Lines 54-102. The variable \<^verbatim>\<open>lastActiveFontIndex\<close> is declared without a value on
  line 66 and tested on line 69.\<close>

definition handleFontSelection :: "string list \<Rightarrow> string option \<Rightarrow> editor \<Rightarrow> editor" where
  "handleFontSelection fonts original s =
     (let s1 = createQuickPick Font (s\<lparr>originalFont := original\<rparr>);
          firstFontinOriginalFont =
            (case original of
               None \<Rightarrow> None
             | Some f \<Rightarrow> map_option trim (first_label (split f (CHR '',''))));
          fonts1 =
            (case firstFontinOriginalFont of
               Some f \<Rightarrow>
                 (if truthy firstFontinOriginalFont then (''Current Font: '' @ f) # fonts
                  else fonts)
             | None \<Rightarrow> fonts);
          s2 = modify Font
                 (\<lambda>q. q\<lparr>items := fonts1, placeholder := ''Select a monospaced font''\<rparr>) s1;
          s3 = s2\<lparr>lastActiveFontIndex := None\<rparr>;
          s4 = (case lastActiveFontIndex s3 of
                  Some i \<Rightarrow>
                    called (SetActiveItems Font (item_at fonts1 i))
                      (modify Font (\<lambda>q. q\<lparr>activeItems := item_at fonts1 i\<rparr>) s3)
                | None \<Rightarrow> s3)
      in quickPick_show Font s4)"

text \<open>Lines 146-163, the command: the platform, the operating system and the settings
  at the start are its inputs.\<close>

definition activate :: "string \<Rightarrow> (string \<Rightarrow> child) \<Rightarrow> (string \<rightharpoonup> string) \<Rightarrow> editor" where
  "activate platform os settings =
     (case getMonospacedFonts platform os of
        Inl error \<Rightarrow>
          showErrorMessage (''Error fetching fonts: '' @ message error) (initial settings)
      | Inr fonts \<Rightarrow>
          (if length fonts = 0
           then showErrorMessage ''No monospaced fonts found on the system.'' (initial settings)
           else (let s1 = config_get ''fontFamily'' (initial settings);
                     original = config s1 ''fontFamily''
                 in handleFontSelection fonts original s1)))"

section \<open>The controller of src/extension.ts\<close>

text \<open>Lines 70-78.\<close>

definition quickPick_onDidChangeActive :: "string list \<Rightarrow> editor \<Rightarrow> editor" where
  "quickPick_onDidChangeActive its s =
     (case its of
        [] \<Rightarrow> s
      | selectedFont # others \<Rightarrow>
          config_update ''fontFamily'' (updatedFontFamily selectedFont (originalFont s)) s)"

text \<open>Lines 88-94.\<close>

definition weightQuickPick_onDidAccept_ext :: "editor \<Rightarrow> editor" where
  "weightQuickPick_onDidAccept_ext s =
     (let selectedWeight = first_label (selected Weight s) in
      quickPick_dispose Weight
        (case selectedWeight of
           Some w \<Rightarrow> (if truthy selectedWeight then config_update ''fontWeight'' w s else s)
         | None \<Rightarrow> s))"

text \<open>Lines 96-98.\<close>

definition weightQuickPick_onDidHide_ext :: "editor \<Rightarrow> editor" where
  "weightQuickPick_onDidHide_ext s = quickPick_dispose Weight s"

text \<open>Lines 80-102.\<close>

definition quickPick_onDidAccept :: "editor \<Rightarrow> editor" where
  "quickPick_onDidAccept s =
     (let selectedFont = first_label (selected Font s) in
      case selectedFont of
        Some f \<Rightarrow>
          (if truthy selectedFont
           then (let s1 = createQuickPick Weight s;
                     s2 = modify Weight
                            (\<lambda>q. q\<lparr>items := fontWeights,
                                   placeholder := ''Select a font weight for '' @ f\<rparr>) s1
                 in quickPick_show Weight s2)
           else s)
      | None \<Rightarrow> s)"

text \<open>Lines 104-109.\<close>

definition quickPick_onDidHide :: "editor \<Rightarrow> editor" where
  "quickPick_onDidHide s =
     quickPick_dispose Font
       (case originalFont s of
          Some f \<Rightarrow>
            (if length (selected Font s) = 0 \<and> truthy (originalFont s)
             then config_update ''fontFamily'' f s else s)
        | None \<Rightarrow> s)"

text \<open>Lines 55-115, the command. The variable \<^verbatim>\<open>originalFont\<close> is declared outside the
  command (line 53) and assigned on line 64, before any listener of the invocation
  reads it; the model follows one invocation of the command.\<close>

definition activate_ext :: "string \<Rightarrow> (string \<Rightarrow> child) \<Rightarrow> (string \<rightharpoonup> string) \<Rightarrow> editor" where
  "activate_ext platform os settings =
     (case getMonospacedFonts platform os of
        Inl error \<Rightarrow>
          showErrorMessage (''Error fetching fonts: '' @ message error) (initial settings)
      | Inr fonts \<Rightarrow>
          (if length fonts = 0
           then showErrorMessage ''No monospaced fonts found on the system.'' (initial settings)
           else (let s1 = config_get ''fontFamily'' (initial settings);
                     s2 = s1\<lparr>originalFont := config s1 ''fontFamily''\<rparr>;
                     s3 = createQuickPick Font s2;
                     s4 = modify Font
                            (\<lambda>q. q\<lparr>items := fonts,
                                   placeholder := ''Select a monospaced font''\<rparr>) s3
                 in quickPick_show Font s4)))"

section \<open>Events\<close>

text \<open>
  The editor drives the listeners. A highlight change and an acceptance reach a quick
  pick that is on screen; the editor has set \<^verbatim>\<open>activeItems\<close> or \<^verbatim>\<open>selectedItems\<close> before
  the listener runs. A hide event reaches a live quick pick, whether the user dismissed
  it or the extension or another input took it off screen. Any other event is not
  delivered. When a listener disposes a quick pick that is on screen, the quick pick is
  hidden first and its hide listener runs.
\<close>

datatype event =
    DidChangeActive picker "string list"
  | DidAccept picker "string list"
  | DidHide picker

fun deliverable :: "event \<Rightarrow> editor \<Rightarrow> bool" where
  "deliverable (DidChangeActive p its) s = shown p s"
| "deliverable (DidAccept p sel) s = shown p s"
| "deliverable (DidHide p) s = live p s"

fun arrive :: "event \<Rightarrow> editor \<Rightarrow> editor" where
  "arrive (DidChangeActive p its) s = modify p (\<lambda>q. q\<lparr>activeItems := its\<rparr>) s"
| "arrive (DidAccept p sel) s = modify p (\<lambda>q. q\<lparr>selectedItems := sel\<rparr>) s"
| "arrive (DidHide p) s = modify p (\<lambda>q. q\<lparr>visible := False\<rparr>) s"

fun listener :: "event \<Rightarrow> editor \<Rightarrow> editor" where
  "listener (DidChangeActive Font its) s = fontQuickPick_onDidChangeActive its s"
| "listener (DidChangeActive Weight its) s = weightQuickPick_onDidChangeActive its s"
| "listener (DidAccept Font sel) s = fontQuickPick_onDidAccept s"
| "listener (DidAccept Weight sel) s = weightQuickPick_onDidAccept s"
| "listener (DidHide Font) s = fontQuickPick_onDidHide s"
| "listener (DidHide Weight) s = weightQuickPick_onDidHide s"

definition step :: "event \<Rightarrow> editor \<Rightarrow> editor" where
  "step e s =
     (if deliverable e s
      then (let s0 = arrive e s;
                s1 = listener e s0;
                s2 = (if shown Weight s0 \<and> \<not> live Weight s1
                      then weightQuickPick_onDidHide s1 else s1)
            in if shown Font s0 \<and> \<not> live Font s2 then fontQuickPick_onDidHide s2 else s2)
      else s)"

definition run :: "event list \<Rightarrow> editor \<Rightarrow> editor" where
  "run es s = foldl (\<lambda>s e. step e s) s es"

text \<open>The same for \<^verbatim>\<open>src/extension.ts\<close>, which registers no listener for a highlight change
  of the weight picker.\<close>

fun listener_ext :: "event \<Rightarrow> editor \<Rightarrow> editor" where
  "listener_ext (DidChangeActive Font its) s = quickPick_onDidChangeActive its s"
| "listener_ext (DidChangeActive Weight its) s = s"
| "listener_ext (DidAccept Font sel) s = quickPick_onDidAccept s"
| "listener_ext (DidAccept Weight sel) s = weightQuickPick_onDidAccept_ext s"
| "listener_ext (DidHide Font) s = quickPick_onDidHide s"
| "listener_ext (DidHide Weight) s = weightQuickPick_onDidHide_ext s"

definition step_ext :: "event \<Rightarrow> editor \<Rightarrow> editor" where
  "step_ext e s =
     (if deliverable e s
      then (let s0 = arrive e s;
                s1 = listener_ext e s0;
                s2 = (if shown Weight s0 \<and> \<not> live Weight s1
                      then weightQuickPick_onDidHide_ext s1 else s1)
            in if shown Font s0 \<and> \<not> live Font s2 then quickPick_onDidHide s2 else s2)
      else s)"

definition run_ext :: "event list \<Rightarrow> editor \<Rightarrow> editor" where
  "run_ext es s = foldl (\<lambda>s e. step_ext e s) s es"

text \<open>The configuration writes among the calls.\<close>

fun is_update :: "call \<Rightarrow> bool" where
  "is_update (ConfigUpdate key v) = True"
| "is_update c = False"

definition writes :: "editor \<Rightarrow> call list" where
  "writes s = filter is_update (calls s)"

text \<open>The calls that assign the active items of a quick pick.\<close>

fun is_restore :: "call \<Rightarrow> bool" where
  "is_restore (SetActiveItems p its) = True"
| "is_restore c = False"

section \<open>Registry output, as the specification reads it\<close>

text \<open>
  The specification speaks of the entries of the registry output, of the name of an entry
  and of a path that ends in \<^verbatim>\<open>.ttf\<close>. The definitions of this section follow its words;
  they are compared with \<^const>\<open>parseMonospacedFonts\<close> below. An entry is a line of type
  \<^verbatim>\<open>REG_SZ\<close>: indentation, name, gap, \<^verbatim>\<open>REG_SZ\<close>, gap, data, line end. The name is what
  stands between the indentation and the gap before \<^verbatim>\<open>REG_SZ\<close>; it may have white space in
  it, as the names under the key of the fonts have ("Consolas (TrueType)"), and the data
  may be empty. Any other line (the line of the key, a value of another type) is given
  as indentation, first token, gap, rest and line end.
\<close>

definition isBlank :: "char \<Rightarrow> bool" where
  "isBlank c = (isWhiteSpace c \<and> \<not> isLineTerminator c)"

definition endsWith :: "string \<Rightarrow> string \<Rightarrow> bool" where
  "endsWith s p = (length p \<le> length s \<and> drop (length s - length p) s = p)"

datatype reg_line =
    Entry string string string string string string
  | Other string string string string string

fun render :: "reg_line \<Rightarrow> string" where
  "render (Entry ind name sep1 sep2 v eol) = ind @ name @ sep1 @ ''REG_SZ'' @ sep2 @ v @ eol"
| "render (Other ind tok sep t eol) = ind @ tok @ sep @ t @ eol"

fun entry_name :: "reg_line \<Rightarrow> string" where
  "entry_name (Entry ind name sep1 sep2 v eol) = name"
| "entry_name (Other ind tok sep t eol) = tok"

fun font_file :: "reg_line \<Rightarrow> bool" where
  "font_file (Entry ind name sep1 sep2 v eol) = endsWith v ''.ttf''"
| "font_file (Other ind tok sep t eol) = False"

definition mono_font :: "reg_line \<Rightarrow> bool" where
  "mono_font l = (font_file l \<and> includes_str (toLowerCase (entry_name l)) ''mono'')"

definition extracted :: "reg_line list \<Rightarrow> string list" where
  "extracted ls = dedup_first (map entry_name (filter mono_font ls))"

text \<open>
  The lines that the pattern reads one by one. A token has no white space, a gap is
  white space within the line, a text stays within the line and begins with a character
  that is no white space, and a line end is white space that begins with a line
  terminator. \<open>token_line\<close> holds of an entry whose name is a single token and whose data
  is not empty, and of another line whose rest does not begin with \<^verbatim>\<open>REG_SZ\<close>. It is a
  condition for the lemma \<open>token_lines_parse\<close> only, narrower than the output of the
  registry: an entry whose name has several words is no such entry (as a line it is a
  first token followed by a rest), and an entry with empty data or a line of a single
  token is no such line at all.
\<close>

definition is_token :: "string \<Rightarrow> bool" where
  "is_token s = (s \<noteq> [] \<and> list_all (\<lambda>c. \<not> isWhiteSpace c) s)"

definition is_gap :: "string \<Rightarrow> bool" where
  "is_gap s = (s \<noteq> [] \<and> list_all isBlank s)"

definition is_text :: "string \<Rightarrow> bool" where
  "is_text s = (s \<noteq> [] \<and> \<not> isWhiteSpace (hd s) \<and> list_all (\<lambda>c. \<not> isLineTerminator c) s)"

definition is_line_end :: "string \<Rightarrow> bool" where
  "is_line_end s = (s \<noteq> [] \<and> isLineTerminator (hd s) \<and> list_all isWhiteSpace s)"

fun token_line :: "reg_line \<Rightarrow> bool" where
  "token_line (Entry ind name sep1 sep2 v eol) =
     (list_all isBlank ind \<and> is_token name \<and> is_gap sep1 \<and> is_gap sep2 \<and> is_text v \<and>
      is_line_end eol)"
| "token_line (Other ind tok sep t eol) =
     (list_all isBlank ind \<and> is_token tok \<and> is_gap sep \<and> is_text t \<and>
      \<not> startsWith t ''REG_SZ'' \<and> is_line_end eol)"

text \<open>For the proofs: a position at which the multiline \<^verbatim>\<open>^\<close> holds, and white space
  from which the search reaches such a position.\<close>

definition line_start :: "char option \<Rightarrow> bool" where
  "line_start prev = (case prev of None \<Rightarrow> True | Some c \<Rightarrow> isLineTerminator c)"

definition reaches_line_start :: "char option \<Rightarrow> string \<Rightarrow> bool" where
  "reaches_line_start prev w = (line_start prev \<or> (\<exists>c \<in> set w. isLineTerminator c))"

section \<open>Stages and example inputs\<close>

text \<open>Two conditions on the state that the proofs follow through a run. While the weight
  picker is live, the font picker is off screen and, if it is still live, holds the
  accepted item. After a weight is accepted the weight picker is gone as well.\<close>

definition staged :: "editor \<Rightarrow> bool" where
  "staged s = (live Weight s \<longrightarrow> \<not> shown Font s \<and> (live Font s \<longrightarrow> selected Font s \<noteq> []))"

definition finished :: "editor \<Rightarrow> bool" where
  "finished s = (\<not> live Weight s \<and> \<not> shown Font s \<and> (live Font s \<longrightarrow> selected Font s \<noteq> []))"

text \<open>Inputs for the examples: an operating system on which every command prints the
  given text and exits with code 0, and settings with no key or one key.\<close>

definition os_prints :: "string \<Rightarrow> string \<Rightarrow> child" where
  "os_prints stdout cmd = Exited 0 stdout"

definition no_settings :: "string \<rightharpoonup> string" where
  "no_settings = Map.empty"

definition one_setting :: "string \<Rightarrow> string \<Rightarrow> (string \<rightharpoonup> string)" where
  "one_setting key v = Map.empty(key \<mapsto> v)"

text \<open>Output of the registry query as Windows prints it: an empty line, the line of the
  key, and one line for each value, every line ended by CR LF. The second list has an
  entry with empty data.\<close>

definition registry_header :: string where
  "registry_header =
     [CHR 0x0D, CHR 0x0A] @ ''HKEY_LOCAL_MACHINE'' @ [CHR 0x5C] @ ''SOFTWARE'' @ [CHR 0x5C] @
     ''Microsoft'' @ [CHR 0x5C] @ ''Windows NT'' @ [CHR 0x5C] @ ''CurrentVersion'' @ [CHR 0x5C] @
     ''Fonts'' @ [CHR 0x0D, CHR 0x0A]"

definition registry_entries :: "reg_line list" where
  "registry_entries =
     [Entry ''    '' ''Consolas (TrueType)'' ''    '' ''    '' ''consola.ttf'' [CHR 0x0D, CHR 0x0A],
      Entry ''    '' ''DejaVu Sans Mono (TrueType)'' ''    '' ''    '' ''DejaVuSansMono.ttf''
        [CHR 0x0D, CHR 0x0A],
      Entry ''    '' ''Liberation Mono (TrueType)'' ''    '' ''    '' ''LiberationMono-Regular.ttf''
        [CHR 0x0D, CHR 0x0A]]"

definition entries_empty_data :: "reg_line list" where
  "entries_empty_data =
     [Entry ''    '' ''MonoA'' ''    '' ''    '' [] [CHR 0x0D, CHR 0x0A],
      Entry ''    '' ''MonoB'' ''    '' ''    '' ''b.ttf'' [CHR 0x0D, CHR 0x0A]]"

section \<open>Removal of duplicates\<close>

lemma indexOf_nonneg_iff: "0 \<le> indexOf xs v \<longleftrightarrow> v \<in> set xs"
  by (induction xs) (auto simp: next_index_def)

lemma indexOf_absent: "v \<notin> set xs \<Longrightarrow> indexOf xs v = - 1"
  by (induction xs) (auto simp: next_index_def)

lemma indexOf_Cons_other: "x \<noteq> v \<Longrightarrow> v \<in> set xs \<Longrightarrow> indexOf (x # xs) v = indexOf xs v + 1"
  using indexOf_nonneg_iff [of xs v] by (simp add: next_index_def)

lemma keep_first_filter:
  "keep_first seen xs = filter (\<lambda>v. v \<notin> seen) (keep_first {} xs)"
proof (induction xs arbitrary: seen)
  case Nil
  show ?case by simp
next
  case (Cons x xs)
  have a: "keep_first (insert x seen) xs = filter (\<lambda>v. v \<notin> insert x seen) (keep_first {} xs)"
    by (rule Cons.IH)
  have b: "keep_first {x} xs = filter (\<lambda>v. v \<notin> {x}) (keep_first {} xs)"
    by (rule Cons.IH)
  have c: "keep_first seen xs = filter (\<lambda>v. v \<notin> seen) (keep_first {} xs)"
    by (rule Cons.IH)
  show ?case
  proof (cases "x \<in> seen")
    case True
    then have "filter (\<lambda>v. v \<notin> seen) (keep_first {x} xs) = keep_first seen xs"
      unfolding b c by (auto intro: filter_cong)
    with True show ?thesis by simp
  next
    case False
    then have "filter (\<lambda>v. v \<notin> seen) (keep_first {x} xs) = keep_first (insert x seen) xs"
      unfolding a b by (auto intro: filter_cong)
    with False show ?thesis by simp
  qed
qed

lemma keep_first_dedup: "keep_first {} xs = dedup_first xs"
proof (induction xs)
  case Nil
  show ?case by simp
next
  case (Cons x xs)
  have "keep_first {x} xs = filter (\<lambda>v. v \<notin> {x}) (keep_first {} xs)"
    by (rule keep_first_filter)
  with Cons show ?case by simp
qed

lemma indexOf_append_first:
  "indexOf (pre @ x # xs) x = int (length pre) \<longleftrightarrow> x \<notin> set pre"
proof (induction pre)
  case Nil
  show ?case by simp
next
  case (Cons p ps)
  have "0 \<le> indexOf (ps @ x # xs) x"
    by (simp add: indexOf_nonneg_iff)
  with Cons show ?case by (auto simp: next_index_def)
qed

lemma filter_from_first_index:
  "filter_from (\<lambda>v i a. indexOf a v = i) (pre @ xs) (int (length pre)) xs
   = keep_first (set pre) xs"
proof (induction xs arbitrary: pre)
  case Nil
  show ?case by simp
next
  case (Cons x xs)
  have step: "filter_from (\<lambda>v i a. indexOf a v = i) ((pre @ [x]) @ xs)
      (int (length (pre @ [x]))) xs = keep_first (set (pre @ [x])) xs"
    by (rule Cons.IH)
  have shift: "int (length pre) + 1 = int (length (pre @ [x]))"
    by simp
  show ?case
  proof (cases "x \<in> set pre")
    case True
    then have "insert x (set pre) = set pre" by auto
    with True step show ?thesis
      by (simp add: indexOf_append_first shift del: of_nat_Suc length_append)
  next
    case False
    with step show ?thesis
      by (simp add: indexOf_append_first shift del: of_nat_Suc length_append)
  qed
qed

lemma filter_via_first_index: "filter_via (\<lambda>v i a. indexOf a v = i) xs = dedup_first xs"
  using filter_from_first_index [of "[]" xs] by (simp add: filter_via_def keep_first_dedup)



section \<open>The previewed font family\<close>

lemma config_after_update: "config (config_update key v s) key = Some v"
  by (simp add: config_update_def called_def)

text \<open>\<^verbatim>\<open>replace\<close> with a string pattern leaves a string without the pattern as it is,
  and takes the first occurrence of the pattern out of a string that has it.\<close>

lemma replace_absent: "\<not> includes_str s pat \<Longrightarrow> replace s pat rep = s"
  by (induction s) auto

lemma startsWith_longer:
  "length pat \<le> length s \<Longrightarrow> startsWith (s @ t) pat = startsWith s pat"
  by (simp add: startsWith_def)

lemma replace_first:
  "pat \<noteq> [] \<Longrightarrow> \<not> includes_str (a @ butlast pat) pat \<Longrightarrow>
   replace (a @ pat @ b) pat rep = a @ rep @ b"
proof (induction a)
  case Nil
  then obtain c cs where pat: "pat = c # cs" by (cases pat) auto
  show ?case
    unfolding pat by (simp add: startsWith_def)
next
  case (Cons x a)
  from Cons.prems have no: "\<not> startsWith (x # a @ butlast pat) pat"
    and rest: "\<not> includes_str (a @ butlast pat) pat"
    by simp_all
  from Cons.prems(1) have "butlast pat @ [last pat] = pat" by simp
  then have whole: "butlast pat @ last pat # b = pat @ b" by simp
  have "length pat \<le> length (x # a @ butlast pat)" by simp
  then have "startsWith ((x # a @ butlast pat) @ last pat # b) pat
      = startsWith (x # a @ butlast pat) pat"
    by (rule startsWith_longer)
  moreover have "(x # a @ butlast pat) @ last pat # b = x # a @ pat @ b"
    by (simp only: append_Cons append_assoc whole)
  ultimately have "startsWith (x # a @ pat @ b) pat = startsWith (x # a @ butlast pat) pat"
    by (simp only:)
  with no have "\<not> startsWith (x # a @ pat @ b) pat" by (simp only: not_False_eq_True)
  with Cons.IH [OF Cons.prems(1) rest] show ?case by simp
qed

lemma marker_first:
  "\<not> includes_str (a @ ''Current Font:'') ''Current Font: '' \<Longrightarrow>
   replace (a @ ''Current Font: '' @ b) ''Current Font: '' [] = a @ b"
  using replace_first [of "''Current Font: ''" a b "[]"] by simp

text \<open>
  Claim C1. Let \<open>chain\<close> be the fallback chain of the original preference \<open>o\<close>
  (\<^term>\<open>originalFont s\<close>): the pieces of \<open>o\<close> between its commas, each trimmed, and no
  element when \<open>o\<close> is absent or empty. On a highlight change in the font stage with the
  candidate font \<open>c\<close>, the value written to \<^verbatim>\<open>fontFamily\<close> is the list joined by a comma
  and a space whose first element is \<open>c\<close>, followed by the chain in its order without \<open>c\<close>
  and without later duplicates; with an empty chain it is \<open>c\<close> alone. In
  \<^verbatim>\<open>src/extension.ts\<close> the candidate is the highlighted label. In the refactored
  controller it is the trimmed label when the label has no marker
  \<^verbatim>\<open>Current Font: \<close>, and the trimmed label without its first marker otherwise: a label
  \<open>a\<close>, marker, \<open>b\<close> in which no marker begins within \<open>a\<close> gives the candidate \<open>a\<close>, \<open>b\<close>
  trimmed. For \<open>o\<close> = "Fira Code, Consolas" and \<open>c\<close> = "Consolas" the value is
  "Consolas, Fira Code".
\<close>

theorem live_preview_value:
  "chain = (case originalFont s of
              None \<Rightarrow> []
            | Some f \<Rightarrow> if f = [] then [] else map trim (split f (CHR '',''))) \<Longrightarrow>
   config (quickPick_onDidChangeActive (c # others) s) ''fontFamily''
     = Some (join (c # filter (\<lambda>v. v \<noteq> c) (dedup_first chain)) '', '')
   \<and> (chain = [] \<longrightarrow>
        config (quickPick_onDidChangeActive (c # others) s) ''fontFamily'' = Some c)
   \<and> (\<not> includes_str label ''Current Font: '' \<longrightarrow>
        config (fontQuickPick_onDidChangeActive (label # others) s) ''fontFamily''
        = Some (join (trim label # filter (\<lambda>v. v \<noteq> trim label) (dedup_first chain)) '', ''))
   \<and> (\<not> includes_str (a @ ''Current Font:'') ''Current Font: '' \<longrightarrow>
        config (fontQuickPick_onDidChangeActive ((a @ ''Current Font: '' @ b) # others) s)
          ''fontFamily''
        = Some (join (trim (a @ b) # filter (\<lambda>v. v \<noteq> trim (a @ b)) (dedup_first chain)) '', ''))
   \<and> config (quickPick_onDidChangeActive [''Consolas'']
         (s\<lparr>originalFont := Some ''Fira Code, Consolas''\<rparr>)) ''fontFamily''
     = Some ''Consolas, Fira Code''
   \<and> config (fontQuickPick_onDidChangeActive [''Consolas'']
         (s\<lparr>originalFont := Some ''Fira Code, Consolas''\<rparr>)) ''fontFamily''
     = Some ''Consolas, Fira Code''"
proof -
  assume chain: "chain = (case originalFont s of
              None \<Rightarrow> []
            | Some f \<Rightarrow> if f = [] then [] else map trim (split f (CHR '','')))"
  have value_eq: "updatedFontFamily f (originalFont s)
      = join (f # filter (\<lambda>v. v \<noteq> f) (dedup_first chain)) '', ''" for f
    unfolding chain
    by (simp add: updatedFontFamily_def fallbackChain_def filter_via_first_index
        split: option.splits)
  have written: "config (fontQuickPick_onDidChangeActive (l # others) s) ''fontFamily''
      = Some (updatedFontFamily (trim (replace l ''Current Font: '' [])) (originalFont s))" for l
    by (simp add: fontQuickPick_onDidChangeActive_def config_after_update Let_def
        del: replace.simps)
  have example: "updatedFontFamily ''Consolas'' (Some ''Fira Code, Consolas'') = ''Consolas, Fira Code''"
    by code_simp
  have strip: "trim (replace ''Consolas'' ''Current Font: '' []) = ''Consolas''"
    by code_simp
  have 1: "config (quickPick_onDidChangeActive (c # others) s) ''fontFamily''
     = Some (join (c # filter (\<lambda>v. v \<noteq> c) (dedup_first chain)) '', '')"
    by (simp add: quickPick_onDidChangeActive_def config_after_update value_eq)
  have 2: "config (quickPick_onDidChangeActive (c # others) s) ''fontFamily'' = Some c"
    if "chain = []"
    unfolding 1 that by simp
  have 3: "config (fontQuickPick_onDidChangeActive (label # others) s) ''fontFamily''
        = Some (join (trim label # filter (\<lambda>v. v \<noteq> trim label) (dedup_first chain)) '', '')"
    if "\<not> includes_str label ''Current Font: ''"
    unfolding written replace_absent [OF that] value_eq ..
  have 4: "config (fontQuickPick_onDidChangeActive ((a @ ''Current Font: '' @ b) # others) s)
          ''fontFamily''
        = Some (join (trim (a @ b) # filter (\<lambda>v. v \<noteq> trim (a @ b)) (dedup_first chain)) '', '')"
    if "\<not> includes_str (a @ ''Current Font:'') ''Current Font: ''"
    unfolding written marker_first [OF that] value_eq ..
  have 5: "config (quickPick_onDidChangeActive [''Consolas'']
         (s\<lparr>originalFont := Some ''Fira Code, Consolas''\<rparr>)) ''fontFamily''
     = Some ''Consolas, Fira Code''"
    by (simp add: quickPick_onDidChangeActive_def config_after_update example)
  have 6: "config (fontQuickPick_onDidChangeActive [''Consolas'']
         (s\<lparr>originalFont := Some ''Fira Code, Consolas''\<rparr>)) ''fontFamily''
     = Some ''Consolas, Fira Code''"
    by (simp add: fontQuickPick_onDidChangeActive_def config_after_update Let_def example strip
        del: replace.simps)
  from 1 2 3 4 5 6 show ?thesis by blast
qed

theorem live_preview_value_witness:
  "config (quickPick_onDidChangeActive [''Fira Code'']
       (initial (one_setting ''fontFamily'' ''Consolas, Courier New'')
          \<lparr>originalFont := Some ''Consolas, Courier New''\<rparr>)) ''fontFamily''
     = Some ''Fira Code, Consolas, Courier New''
   \<and> config (fontQuickPick_onDidChangeActive [''Courier New'']
       (initial (one_setting ''fontFamily'' ''Consolas, Courier New'')
          \<lparr>originalFont := Some ''Consolas, Courier New''\<rparr>)) ''fontFamily''
     = Some ''Courier New, Consolas''
   \<and> config (fontQuickPick_onDidChangeActive [''Current Font: Consolas'']
       (initial (one_setting ''fontFamily'' ''Consolas, Courier New'')
          \<lparr>originalFont := Some ''Consolas, Courier New''\<rparr>)) ''fontFamily''
     = Some ''Consolas, Courier New''
   \<and> config (quickPick_onDidChangeActive [''Menlo''] (initial no_settings)) ''fontFamily''
     = Some ''Menlo''"
proof -
  let ?s = "initial (one_setting ''fontFamily'' ''Consolas, Courier New'')
          \<lparr>originalFont := Some ''Consolas, Courier New''\<rparr>"
  have chain: "[''Consolas'', ''Courier New''] = (case originalFont ?s of
              None \<Rightarrow> []
            | Some f \<Rightarrow> if f = [] then [] else map trim (split f (CHR '','')))"
    by code_simp
  have none: "[] = (case originalFont (initial no_settings) of
              None \<Rightarrow> []
            | Some f \<Rightarrow> if f = [] then [] else map trim (split f (CHR '','')))"
    by (simp add: initial_def)
  have absent: "\<not> includes_str ''Courier New'' ''Current Font: ''"
    by code_simp
  have first: "\<not> includes_str ([] @ ''Current Font:'') ''Current Font: ''"
    by code_simp
  have a: "join (''Fira Code'' # filter (\<lambda>v. v \<noteq> ''Fira Code'')
        (dedup_first [''Consolas'', ''Courier New''])) '', '' = ''Fira Code, Consolas, Courier New''"
    by code_simp
  have b: "join (trim ''Courier New'' # filter (\<lambda>v. v \<noteq> trim ''Courier New'')
        (dedup_first [''Consolas'', ''Courier New''])) '', '' = ''Courier New, Consolas''"
    by code_simp
  have c: "join (trim ([] @ ''Consolas'') # filter (\<lambda>v. v \<noteq> trim ([] @ ''Consolas''))
        (dedup_first [''Consolas'', ''Courier New''])) '', '' = ''Consolas, Courier New''"
    by code_simp
  from live_preview_value [OF chain, of "''Fira Code''" "[]" "''Courier New''" "[]" "''Consolas''"]
    live_preview_value [OF none, of "''Menlo''" "[]"]
    absent first
  show ?thesis
    unfolding a b c by simp
qed

section \<open>Parsing the output of fc-list\<close>

lemma foldl_Set_add:
  "foldl (\<lambda>fonts line. if P line then Set_add fonts (f line) else fonts) acc ls
   = acc @ keep_first (set acc) (map f (filter P ls))"
proof (induction ls arbitrary: acc)
  case Nil
  show ?case by simp
next
  case (Cons l ls)
  show ?case
  proof (cases "P l")
    case False
    with Cons show ?thesis by simp
  next
    case True
    show ?thesis
    proof (cases "f l \<in> set acc")
      case True
      with \<open>P l\<close> Cons [of acc] show ?thesis by (simp add: Set_add_def)
    next
      case False
      with \<open>P l\<close> Cons [of "acc @ [f l]"] show ?thesis by (simp add: Set_add_def)
    qed
  qed
qed





section \<open>The command and the failures of the enumeration\<close>

text \<open>
  Claim C7. On win32 the command handed to the executor has no backslash: the escape
  sequences of the literal on line 11 stand for the characters after the backslashes,
  so the command is \<^verbatim>\<open>reg query "HKLMSOFTWAREMicrosoftWindows NTCurrentVersionFonts" /s\<close>,
  and the enumeration depends on the operating system through this command only.
\<close>

theorem windows_command:
  "command ''win32''
     = ''reg query '' @ [CHR 0x22] @ ''HKLMSOFTWAREMicrosoftWindows NTCurrentVersionFonts''
       @ [CHR 0x22] @ '' /s''
   \<and> CHR 0x5C \<notin> set (command ''win32'')
   \<and> CHR 0x5C \<in> set win32_literal
   \<and> (os (command ''win32'') = os' (command ''win32'')
        \<longrightarrow> getMonospacedFonts ''win32'' os = getMonospacedFonts ''win32'' os')"
proof -
  have c: "command ''win32''
     = ''reg query '' @ [CHR 0x22] @ ''HKLMSOFTWAREMicrosoftWindows NTCurrentVersionFonts''
       @ [CHR 0x22] @ '' /s''"
    by code_simp
  have "CHR 0x5C \<notin> set (command ''win32'')"
    unfolding c by simp
  moreover have "CHR 0x5C \<in> set win32_literal"
    by (simp add: win32_literal_def)
  moreover have "getMonospacedFonts ''win32'' os = getMonospacedFonts ''win32'' os'"
    if "os (command ''win32'') = os' (command ''win32'')"
    using that by (simp add: getMonospacedFonts_def exec_def)
  ultimately show ?thesis using c by blast
qed

theorem windows_command_witness:
  "getMonospacedFonts ''win32'' (\<lambda>cmd. if CHR 0x5C \<in> set cmd then NotRun ''x'' else Exited 0 [])
   = getMonospacedFonts ''win32'' (\<lambda>cmd. Exited 0 [])"
  using windows_command [of "\<lambda>cmd. if CHR 0x5C \<in> set cmd then NotRun ''x'' else Exited 0 []"
      "\<lambda>cmd. Exited 0 []"]
  by simp

text \<open>
  Claim C4. On a platform that is neither win32 nor darwin nor linux the enumeration
  fails (the command is empty and the executor refuses it), and it fails in every run
  in which the process exits with a code other than zero.
\<close>

theorem enumeration_fails:
  "(platform \<noteq> ''win32'' \<and> platform \<noteq> ''darwin'' \<and> platform \<noteq> ''linux''
      \<longrightarrow> getMonospacedFonts platform os = Inl ERR_INVALID_ARG_VALUE)
   \<and> (os (command platform) = Exited code stdout \<and> code \<noteq> 0
      \<longrightarrow> (\<exists>e. getMonospacedFonts platform os = Inl e))"
  by (auto simp: getMonospacedFonts_def exec_def command_def)

theorem enumeration_fails_witness:
  "getMonospacedFonts ''freebsd'' (\<lambda>cmd. Exited 0 ''Menlo'') = Inl ERR_INVALID_ARG_VALUE
   \<and> (\<exists>e. getMonospacedFonts ''linux'' (\<lambda>cmd. Exited 1 []) = Inl e)"
  using enumeration_fails [of "''freebsd''" "\<lambda>cmd. Exited 0 ''Menlo''" 0 "''Menlo''"]
    enumeration_fails [of "''linux''" "\<lambda>cmd. Exited 1 []" 1 "[]"]
  by simp

section \<open>The effect of the editor calls on the state\<close>

lemma picker_of_called [simp]: "picker_of p (called c s) = picker_of p s"
  by (cases p) (simp_all add: called_def)

lemma picker_of_put [simp]: "picker_of p (put_picker q x s) = (if p = q then Some x else picker_of p s)"
  by (cases p; cases q) simp_all

lemma picker_of_modify [simp]:
  "picker_of p (modify q g s) = (if p = q then map_option g (picker_of p s) else picker_of p s)"
  by (simp add: modify_def split: option.splits)

lemma picker_of_config_update [simp]: "picker_of p (config_update k v s) = picker_of p s"
  by (cases p) (simp_all add: config_update_def called_def)

lemma picker_of_create [simp]:
  "picker_of p (createQuickPick q s)
   = (if p = q then Some \<lparr>items = [], placeholder = [], activeItems = [], selectedItems = [],
        visible = False, disposed = False\<rparr> else picker_of p s)"
  by (simp add: createQuickPick_def)

lemma fields_called [simp]:
  "config (called c s) = config s" "originalFont (called c s) = originalFont s"
  "calls (called c s) = calls s @ [c]"
  by (simp_all add: called_def)

lemma fields_put [simp]:
  "config (put_picker q x s) = config s" "originalFont (put_picker q x s) = originalFont s"
  "calls (put_picker q x s) = calls s"
  by (cases q; simp)+

lemma fields_modify [simp]:
  "config (modify q g s) = config s" "originalFont (modify q g s) = originalFont s"
  "calls (modify q g s) = calls s"
  by (simp_all add: modify_def split: option.splits)

lemma fields_config_update [simp]:
  "config (config_update k v s) = (config s)(k \<mapsto> v)"
  "originalFont (config_update k v s) = originalFont s"
  "calls (config_update k v s) = calls s @ [ConfigUpdate k v]"
  by (simp_all add: config_update_def)

lemma fields_create [simp]:
  "config (createQuickPick q s) = config s" "originalFont (createQuickPick q s) = originalFont s"
  "calls (createQuickPick q s) = calls s @ [CreateQuickPick q]"
  by (simp_all add: createQuickPick_def)

lemma fields_show [simp]:
  "config (quickPick_show q s) = config s" "originalFont (quickPick_show q s) = originalFont s"
  "calls (quickPick_show q s) = calls s @ [ShowPick q]"
  by (simp_all add: quickPick_show_def Let_def)

lemma fields_hide [simp]:
  "config (quickPick_hide q s) = config s" "originalFont (quickPick_hide q s) = originalFont s"
  "calls (quickPick_hide q s) = calls s @ [HidePick q]"
  by (simp_all add: quickPick_hide_def Let_def)

lemma fields_dispose [simp]:
  "config (quickPick_dispose q s) = config s"
  "originalFont (quickPick_dispose q s) = originalFont s"
  "calls (quickPick_dispose q s) = calls s @ [DisposePick q]"
  by (simp_all add: quickPick_dispose_def)

lemma other_neq [simp]: "other p \<noteq> p" "p \<noteq> other p" "(q = other p) = (q \<noteq> p)"
  by (cases p; cases q; simp)+

lemma status_called [simp]:
  "live p (called c s) = live p s" "shown p (called c s) = shown p s"
  "selected p (called c s) = selected p s"
  by (simp_all add: live_def shown_def selected_def)

lemma status_config_update [simp]:
  "live p (config_update k v s) = live p s" "shown p (config_update k v s) = shown p s"
  "selected p (config_update k v s) = selected p s"
  by (simp_all add: live_def shown_def selected_def)

lemma status_create [simp]:
  "live p (createQuickPick q s) = (p = q \<or> live p s)"
  "shown p (createQuickPick q s) = (p \<noteq> q \<and> shown p s)"
  "selected p (createQuickPick q s) = (if p = q then [] else selected p s)"
  by (simp_all add: live_def shown_def selected_def)

lemma status_show [simp]:
  "live p (quickPick_show q s) = live p s"
  "shown p (quickPick_show q s) = (if live q s then p = q else shown p s)"
  "selected p (quickPick_show q s) = selected p s"
  by (auto simp: live_def shown_def selected_def quickPick_show_def Let_def split: option.splits)

lemma status_hide [simp]:
  "live p (quickPick_hide q s) = live p s"
  "shown p (quickPick_hide q s) = (p \<noteq> q \<and> shown p s)"
  "selected p (quickPick_hide q s) = selected p s"
  by (auto simp: live_def shown_def selected_def quickPick_hide_def Let_def split: option.splits)

lemma status_dispose [simp]:
  "live p (quickPick_dispose q s) = (p \<noteq> q \<and> live p s)"
  "shown p (quickPick_dispose q s) = (p \<noteq> q \<and> shown p s)"
  "selected p (quickPick_dispose q s) = selected p s"
  by (auto simp: live_def shown_def selected_def quickPick_dispose_def split: option.splits)

lemma status_labels [simp]:
  "live p (modify q (\<lambda>x. x\<lparr>items := a, placeholder := b\<rparr>) s) = live p s"
  "shown p (modify q (\<lambda>x. x\<lparr>items := a, placeholder := b\<rparr>) s) = shown p s"
  "selected p (modify q (\<lambda>x. x\<lparr>items := a, placeholder := b\<rparr>) s) = selected p s"
  by (auto simp: live_def shown_def selected_def split: option.splits)

lemma status_arrive [simp]:
  "live p (arrive e s) = live p s"
  "shown p (arrive (DidChangeActive q its) s) = shown p s"
  "shown p (arrive (DidAccept q sel) s) = shown p s"
  "shown p (arrive (DidHide q) s) = (p \<noteq> q \<and> shown p s)"
  "selected p (arrive (DidChangeActive q its) s) = selected p s"
  "live q s \<Longrightarrow> selected p (arrive (DidAccept q sel) s) = (if p = q then sel else selected p s)"
  "selected p (arrive (DidHide q) s) = selected p s"
  by (cases e; auto simp: live_def shown_def selected_def split: option.splits)+

lemma fields_arrive [simp]:
  "config (arrive e s) = config s" "originalFont (arrive e s) = originalFont s"
  "calls (arrive e s) = calls s"
  by (cases e; simp)+

lemma shown_live [simp]: "shown p s \<Longrightarrow> live p s"
  by (auto simp: live_def shown_def split: option.splits)

lemma live_exists: "live p s \<Longrightarrow> picker_of p s \<noteq> None"
  by (auto simp: live_def split: option.splits)

lemma picker_of_vars [simp]:
  "picker_of p (s\<lparr>lastActiveFontIndex := i\<rparr>) = picker_of p s"
  "picker_of p (s\<lparr>originalFont := f\<rparr>) = picker_of p s"
  by (cases p; simp)+

lemma status_vars [simp]:
  "live p (s\<lparr>lastActiveFontIndex := i\<rparr>) = live p s"
  "shown p (s\<lparr>lastActiveFontIndex := i\<rparr>) = shown p s"
  "selected p (s\<lparr>lastActiveFontIndex := i\<rparr>) = selected p s"
  "live p (s\<lparr>originalFont := f\<rparr>) = live p s"
  "shown p (s\<lparr>originalFont := f\<rparr>) = shown p s"
  "selected p (s\<lparr>originalFont := f\<rparr>) = selected p s"
  by (simp_all add: live_def shown_def selected_def)

lemmas listener_defs = applyWeight_def weightQuickPick_onDidChangeActive_def
  weightQuickPick_onDidAccept_def weightQuickPick_onDidHide_def handleWeightSelection_def
  fontQuickPick_onDidChangeActive_def fontQuickPick_onDidAccept_def fontQuickPick_onDidHide_def

lemmas listener_ext_defs = quickPick_onDidChangeActive_def weightQuickPick_onDidAccept_ext_def
  weightQuickPick_onDidHide_ext_def quickPick_onDidAccept_def quickPick_onDidHide_def



declare arrive.simps [simp del]

lemma status_initial [simp]:
  "live p (initial settings) = False" "shown p (initial settings) = False"
  "selected p (initial settings) = []" "picker_of p (initial settings) = None"
  "config (initial settings) = settings" "calls (initial settings) = []"
  by (cases p; simp add: live_def shown_def selected_def initial_def)+

lemma status_notify [simp]:
  "live p (showErrorMessage m s) = live p s" "shown p (showErrorMessage m s) = shown p s"
  "picker_of p (showErrorMessage m s) = picker_of p s"
  "config (showErrorMessage m s) = config s"
  "calls (showErrorMessage m s) = calls s @ [ShowErrorMessage m]"
  "live p (config_get k s) = live p s" "shown p (config_get k s) = shown p s"
  "selected p (config_get k s) = selected p s"
  "picker_of p (config_get k s) = picker_of p s"
  "config (config_get k s) = config s"
  "calls (config_get k s) = calls s @ [ConfigGet k]"
  by (simp_all add: showErrorMessage_def config_get_def)

lemma activate_weight: "\<not> live Weight (activate platform os settings)"
  by (simp add: activate_def handleFontSelection_def Let_def split: sum.splits)

lemma activate_ext_weight: "\<not> live Weight (activate_ext platform os settings)"
  by (simp add: activate_ext_def Let_def split: sum.splits)



lemma staged_step: "staged s \<Longrightarrow> staged (step e s)"
proof (cases e)
  case (DidChangeActive p its)
  then show "staged s \<Longrightarrow> ?thesis"
    by (cases p) (auto simp: staged_def step_def listener_defs Let_def dest: shown_live
        split: option.splits list.splits)
next
  case (DidAccept p sel)
  then show "staged s \<Longrightarrow> ?thesis"
    by (cases p) (auto simp: staged_def step_def listener_defs Let_def dest: shown_live live_exists
        split: option.splits list.splits)
next
  case (DidHide p)
  then show "staged s \<Longrightarrow> ?thesis"
    by (cases p) (auto simp: staged_def step_def listener_defs Let_def dest: shown_live
        split: option.splits list.splits)
qed

lemma staged_step_ext: "staged s \<Longrightarrow> staged (step_ext e s)"
proof (cases e)
  case (DidChangeActive p its)
  then show "staged s \<Longrightarrow> ?thesis"
    by (cases p) (auto simp: staged_def step_ext_def listener_ext_defs Let_def dest: shown_live
        split: option.splits list.splits)
next
  case (DidAccept p sel)
  then show "staged s \<Longrightarrow> ?thesis"
    by (cases p) (auto simp: staged_def step_ext_def listener_ext_defs Let_def
        dest: shown_live live_exists split: option.splits list.splits)
next
  case (DidHide p)
  then show "staged s \<Longrightarrow> ?thesis"
    by (cases p) (auto simp: staged_def step_ext_def listener_ext_defs Let_def dest: shown_live
        split: option.splits list.splits)
qed

lemma run_Nil [simp]: "run [] s = s"
  by (simp add: run_def)

lemma run_Cons [simp]: "run (e # es) s = run es (step e s)"
  by (simp add: run_def)

lemma run_append [simp]: "run (es @ es') s = run es' (run es s)"
  by (simp add: run_def)

lemma run_ext_Nil [simp]: "run_ext [] s = s"
  by (simp add: run_ext_def)

lemma run_ext_Cons [simp]: "run_ext (e # es) s = run_ext es (step_ext e s)"
  by (simp add: run_ext_def)

lemma staged_run: "staged s \<Longrightarrow> staged (run es s)"
  by (induction es arbitrary: s) (simp_all add: staged_step)

lemma staged_run_ext: "staged s \<Longrightarrow> staged (run_ext es s)"
  by (induction es arbitrary: s) (simp_all add: staged_step_ext)

lemma staged_activate: "staged (run es (activate platform os settings))"
  by (rule staged_run) (simp add: staged_def activate_weight)

lemma staged_activate_ext: "staged (run_ext es (activate_ext platform os settings))"
  by (rule staged_run_ext) (simp add: staged_def activate_ext_weight)

lemma writes_append [simp]: "writes (s\<lparr>calls := cs\<rparr>) = filter is_update cs"
  by (simp add: writes_def)

lemma finished_step:
  "finished s \<Longrightarrow> finished (step e s) \<and> config (step e s) = config s \<and> writes (step e s) = writes s"
proof (cases e)
  case (DidChangeActive p its)
  then show "finished s \<Longrightarrow> ?thesis"
    by (cases p) (auto simp: finished_def step_def dest: shown_live)
next
  case (DidAccept p sel)
  then show "finished s \<Longrightarrow> ?thesis"
    by (cases p) (auto simp: finished_def step_def dest: shown_live)
next
  case (DidHide p)
  then show "finished s \<Longrightarrow> ?thesis"
    by (cases p) (auto simp: finished_def step_def listener_defs Let_def writes_def
        dest: shown_live split: option.splits list.splits)
qed

lemma finished_step_ext:
  "finished s \<Longrightarrow> finished (step_ext e s) \<and> config (step_ext e s) = config s \<and> writes (step_ext e s) = writes s"
proof (cases e)
  case (DidChangeActive p its)
  then show "finished s \<Longrightarrow> ?thesis"
    by (cases p) (auto simp: finished_def step_ext_def dest: shown_live)
next
  case (DidAccept p sel)
  then show "finished s \<Longrightarrow> ?thesis"
    by (cases p) (auto simp: finished_def step_ext_def dest: shown_live)
next
  case (DidHide p)
  then show "finished s \<Longrightarrow> ?thesis"
    by (cases p) (auto simp: finished_def step_ext_def listener_ext_defs Let_def writes_def
        dest: shown_live split: option.splits list.splits)
qed

lemma finished_run:
  "finished s \<Longrightarrow> finished (run es s) \<and> config (run es s) = config s \<and> writes (run es s) = writes s"
proof (induction es arbitrary: s)
  case Nil
  then show ?case by simp
next
  case (Cons e es)
  from finished_step [OF Cons.prems, of e] Cons.IH [of "step e s"]
  show ?case by simp
qed

lemma finished_run_ext:
  "finished s \<Longrightarrow> finished (run_ext es s) \<and> config (run_ext es s) = config s \<and> writes (run_ext es s) = writes s"
proof (induction es arbitrary: s)
  case Nil
  then show ?case by simp
next
  case (Cons e es)
  from finished_step_ext [OF Cons.prems, of e] Cons.IH [of "step_ext e s"]
  show ?case by simp
qed

lemma accept_finishes:
  "staged s \<Longrightarrow> shown Weight s \<Longrightarrow> w \<noteq> [] \<Longrightarrow>
   finished (step (DidAccept Weight [w]) s)
   \<and> config (step (DidAccept Weight [w]) s) = (config s)(''fontWeight'' \<mapsto> w)
   \<and> writes (step (DidAccept Weight [w]) s) = writes s @ [ConfigUpdate ''fontWeight'' w]"
  by (auto simp: staged_def finished_def step_def listener_defs Let_def writes_def
      dest: shown_live live_exists)

lemma accept_finishes_ext:
  "staged s \<Longrightarrow> shown Weight s \<Longrightarrow> w \<noteq> [] \<Longrightarrow>
   finished (step_ext (DidAccept Weight [w]) s)
   \<and> config (step_ext (DidAccept Weight [w]) s) = (config s)(''fontWeight'' \<mapsto> w)
   \<and> writes (step_ext (DidAccept Weight [w]) s) = writes s @ [ConfigUpdate ''fontWeight'' w]"
  by (auto simp: staged_def finished_def step_ext_def listener_ext_defs Let_def writes_def
      dest: shown_live live_exists)

lemma byteLength_le: "byteLength s \<le> 2 * length s"
  using length_filter_le [of "\<lambda>c. 128 \<le> (of_char c :: nat)" s] by (simp add: byteLength_def)

lemma getMonospacedFonts_ok:
  "command platform \<noteq> [] \<Longrightarrow> os (command platform) = Exited 0 stdout \<Longrightarrow>
   length stdout \<le> 512 * 1024
   \<Longrightarrow> getMonospacedFonts platform os = Inr (parseMonospacedFonts stdout platform)"
proof -
  assume c: "command platform \<noteq> []" and os: "os (command platform) = Exited 0 stdout"
    and "length stdout \<le> 512 * 1024"
  with byteLength_le [of stdout] have "\<not> 1024 * 1024 < byteLength stdout" by simp
  with c os show ?thesis by (simp add: getMonospacedFonts_def exec_def)
qed

lemma activate_success:
  "getMonospacedFonts platform os = Inr fonts \<Longrightarrow> fonts \<noteq> [] \<Longrightarrow>
   activate platform os settings
   = handleFontSelection fonts (settings ''fontFamily'')
       (config_get ''fontFamily'' (initial settings))"
  by (simp add: activate_def Let_def)

lemma activate_ext_success:
  "getMonospacedFonts platform os = Inr fonts \<Longrightarrow> fonts \<noteq> [] \<Longrightarrow>
   activate_ext platform os settings
   = quickPick_show Font
       (modify Font (\<lambda>q. q\<lparr>items := fonts, placeholder := ''Select a monospaced font''\<rparr>)
         (createQuickPick Font
           ((config_get ''fontFamily'' (initial settings))\<lparr>originalFont := settings ''fontFamily''\<rparr>)))"
  by (simp add: activate_ext_def Let_def)

lemma linux_prints:
  "length stdout \<le> 512 * 1024 \<Longrightarrow>
   getMonospacedFonts ''linux'' (os_prints stdout) = Inr (parseMonospacedFonts stdout ''linux'')"
proof -
  assume "length stdout \<le> 512 * 1024"
  moreover have "command ''linux'' \<noteq> []" by code_simp
  moreover have "os_prints stdout (command ''linux'') = Exited 0 stdout"
    by (simp add: os_prints_def)
  ultimately show ?thesis by (simp add: getMonospacedFonts_ok)
qed

lemma fonts_Menlo: "getMonospacedFonts ''linux'' (os_prints ''Menlo'') = Inr [''Menlo'']"
proof -
  have "parseMonospacedFonts ''Menlo'' ''linux'' = [''Menlo'']" by code_simp
  then show ?thesis by (simp add: linux_prints)
qed

lemma fonts_none: "getMonospacedFonts ''linux'' (os_prints []) = Inr []"
proof -
  have "parseMonospacedFonts [] ''linux'' = []" by code_simp
  then show ?thesis by (simp add: linux_prints)
qed

lemma weights_nonempty: "w \<in> set fontWeights \<Longrightarrow> w \<noteq> []"
  by (auto simp: fontWeights_def)

text \<open>
  Claim C9. In both controllers, accepting a weight token \<open>w\<close> (one of normal, bold, 100,
  ..., 900) while the weight picker is on screen writes exactly \<open>w\<close> to \<^verbatim>\<open>fontWeight\<close>:
  it is the one configuration write of the step. Afterwards the weight picker is
  disposed and the font picker is off screen, and whatever events follow, no further
  configuration write occurs and the configuration stays as it is.
\<close>

theorem weight_accept_terminal:
  "w \<in> set fontWeights \<Longrightarrow>
   (shown Weight (run es (activate platform os settings)) \<longrightarrow>
      (let s = run es (activate platform os settings); s' = step (DidAccept Weight [w]) s in
       config s' ''fontWeight'' = Some w
       \<and> writes s' = writes s @ [ConfigUpdate ''fontWeight'' w]
       \<and> \<not> live Weight s' \<and> \<not> shown Font s'
       \<and> writes (run es' s') = writes s' \<and> config (run es' s') = config s'))
   \<and> (shown Weight (run_ext es (activate_ext platform os settings)) \<longrightarrow>
      (let s = run_ext es (activate_ext platform os settings);
           s' = step_ext (DidAccept Weight [w]) s in
       config s' ''fontWeight'' = Some w
       \<and> writes s' = writes s @ [ConfigUpdate ''fontWeight'' w]
       \<and> \<not> live Weight s' \<and> \<not> shown Font s'
       \<and> writes (run_ext es' s') = writes s' \<and> config (run_ext es' s') = config s'))"
proof -
  assume "w \<in> set fontWeights"
  then have w: "w \<noteq> []" by (rule weights_nonempty)
  show ?thesis
  proof (intro conjI impI)
    assume sh: "shown Weight (run es (activate platform os settings))"
    from accept_finishes [OF staged_activate sh w]
      finished_run [of "step (DidAccept Weight [w]) (run es (activate platform os settings))" es']
    show "let s = run es (activate platform os settings); s' = step (DidAccept Weight [w]) s in
       config s' ''fontWeight'' = Some w
       \<and> writes s' = writes s @ [ConfigUpdate ''fontWeight'' w]
       \<and> \<not> live Weight s' \<and> \<not> shown Font s'
       \<and> writes (run es' s') = writes s' \<and> config (run es' s') = config s'"
      by (simp add: Let_def finished_def)
  next
    assume sh: "shown Weight (run_ext es (activate_ext platform os settings))"
    from accept_finishes_ext [OF staged_activate_ext sh w]
      finished_run_ext [of "step_ext (DidAccept Weight [w]) (run_ext es (activate_ext platform os settings))" es']
    show "let s = run_ext es (activate_ext platform os settings);
           s' = step_ext (DidAccept Weight [w]) s in
       config s' ''fontWeight'' = Some w
       \<and> writes s' = writes s @ [ConfigUpdate ''fontWeight'' w]
       \<and> \<not> live Weight s' \<and> \<not> shown Font s'
       \<and> writes (run_ext es' s') = writes s' \<and> config (run_ext es' s') = config s'"
      by (simp add: Let_def finished_def)
  qed
qed

theorem weight_accept_terminal_witness:
  "config (run [DidAccept Font [''Menlo''], DidAccept Weight [''bold''], DidChangeActive Font [''Menlo''],
       DidHide Font] (activate ''linux'' (os_prints ''Menlo'') no_settings)) ''fontWeight'' = Some ''bold''
   \<and> config (run_ext [DidAccept Font [''Menlo''], DidAccept Weight [''bold''], DidChangeActive Font [''Menlo''],
       DidHide Font] (activate_ext ''linux'' (os_prints ''Menlo'') no_settings)) ''fontWeight'' = Some ''bold''"
proof -
  have w: "''bold'' \<in> set fontWeights" by (simp add: fontWeights_def)
  have a: "activate ''linux'' (os_prints ''Menlo'') no_settings
      = handleFontSelection [''Menlo''] (no_settings ''fontFamily'')
          (config_get ''fontFamily'' (initial no_settings))"
    by (rule activate_success [OF fonts_Menlo]) simp
  have b: "activate_ext ''linux'' (os_prints ''Menlo'') no_settings
      = quickPick_show Font
       (modify Font (\<lambda>q. q\<lparr>items := [''Menlo''], placeholder := ''Select a monospaced font''\<rparr>)
         (createQuickPick Font
           ((config_get ''fontFamily'' (initial no_settings))\<lparr>originalFont := no_settings ''fontFamily''\<rparr>)))"
    by (rule activate_ext_success [OF fonts_Menlo]) simp
  have sh: "shown Weight (run [DidAccept Font [''Menlo'']] (activate ''linux'' (os_prints ''Menlo'') no_settings))"
    unfolding a by code_simp
  have sh_ext: "shown Weight (run_ext [DidAccept Font [''Menlo'']]
      (activate_ext ''linux'' (os_prints ''Menlo'') no_settings))"
    unfolding b by code_simp
  from weight_accept_terminal [OF w, of "[DidAccept Font [''Menlo'']]" "''linux''" "os_prints ''Menlo''"
      no_settings "[DidChangeActive Font [''Menlo''], DidHide Font]"] sh sh_ext
  show ?thesis by (simp add: Let_def)
qed

lemma not_deliverable: "\<not> live Font s \<Longrightarrow> \<not> live Weight s \<Longrightarrow> \<not> deliverable e s"
proof -
  assume idle: "\<not> live Font s" "\<not> live Weight s"
  have "\<not> live p s" for p
    using idle by (cases p) simp_all
  moreover from this have "\<not> shown p s" for p
    using shown_live [of p s] by blast
  ultimately show ?thesis by (cases e) simp_all
qed

lemma step_idle: "\<not> live Font s \<Longrightarrow> \<not> live Weight s \<Longrightarrow> step e s = s"
  by (simp add: step_def not_deliverable)

lemma step_ext_idle: "\<not> live Font s \<Longrightarrow> \<not> live Weight s \<Longrightarrow> step_ext e s = s"
  by (simp add: step_ext_def not_deliverable)

lemma run_idle: "\<not> live Font s \<Longrightarrow> \<not> live Weight s \<Longrightarrow> run es s = s"
  by (induction es) (simp_all add: step_idle)

lemma run_ext_idle: "\<not> live Font s \<Longrightarrow> \<not> live Weight s \<Longrightarrow> run_ext es s = s"
  by (induction es) (simp_all add: step_ext_idle)

text \<open>
  Claim C10. When the enumeration succeeds with an empty list, both controllers make
  one call on the editor, the error notification; no quick pick is created, so none is
  ever shown and no event changes the state; no configuration key is read or written.
\<close>

theorem empty_enumeration:
  "getMonospacedFonts platform os = Inr [] \<Longrightarrow>
   run es (activate platform os settings) = activate platform os settings
   \<and> calls (activate platform os settings)
       = [ShowErrorMessage ''No monospaced fonts found on the system.'']
   \<and> config (activate platform os settings) = settings
   \<and> fontQuickPick (activate platform os settings) = None
   \<and> weightQuickPick (activate platform os settings) = None
   \<and> run_ext es (activate_ext platform os settings) = activate_ext platform os settings
   \<and> calls (activate_ext platform os settings)
       = [ShowErrorMessage ''No monospaced fonts found on the system.'']
   \<and> config (activate_ext platform os settings) = settings
   \<and> fontQuickPick (activate_ext platform os settings) = None
   \<and> weightQuickPick (activate_ext platform os settings) = None"
proof -
  assume empty: "getMonospacedFonts platform os = Inr []"
  then have a: "activate platform os settings
      = showErrorMessage ''No monospaced fonts found on the system.'' (initial settings)"
    and b: "activate_ext platform os settings
      = showErrorMessage ''No monospaced fonts found on the system.'' (initial settings)"
    by (simp_all add: activate_def activate_ext_def)
  have idle: "\<not> live Font (showErrorMessage m (initial settings))"
    "\<not> live Weight (showErrorMessage m (initial settings))" for m
    by simp_all
  have none: "fontQuickPick (showErrorMessage m (initial settings)) = None"
    "weightQuickPick (showErrorMessage m (initial settings)) = None" for m
    by (simp_all add: showErrorMessage_def called_def initial_def)
  show ?thesis
    unfolding a b by (simp add: run_idle run_ext_idle idle none)
qed

theorem empty_enumeration_witness:
  "calls (run [DidChangeActive Font [''Menlo''], DidHide Font]
      (activate ''linux'' (os_prints []) (one_setting ''fontFamily'' ''Menlo'')))
     = [ShowErrorMessage ''No monospaced fonts found on the system.'']
   \<and> config (activate_ext ''linux'' (os_prints []) (one_setting ''fontFamily'' ''Menlo''))
     = one_setting ''fontFamily'' ''Menlo''"
  using empty_enumeration [OF fonts_none, of "[DidChangeActive Font [''Menlo''], DidHide Font]"
      "one_setting ''fontFamily'' ''Menlo''"]
  by simp




















lemma fonts_Fira_Menlo:
  "getMonospacedFonts ''linux'' (os_prints (''Fira'' @ [CHR 0x0A] @ ''Menlo''))
     = Inr [''Fira'', ''Menlo'']"
proof -
  have "parseMonospacedFonts (''Fira'' @ [CHR 0x0A] @ ''Menlo'') ''linux'' = [''Fira'', ''Menlo'']"
    by code_simp
  then show ?thesis by (simp add: linux_prints)
qed

lemma step_no_restore: "filter is_restore (calls (step e s)) = filter is_restore (calls s)"
proof (cases e)
  case (DidChangeActive p its)
  then show ?thesis
    by (cases p) (auto simp: step_def listener_defs Let_def split: option.splits list.splits)
next
  case (DidAccept p sel)
  then show ?thesis
    by (cases p) (auto simp: step_def listener_defs Let_def split: option.splits list.splits)
next
  case (DidHide p)
  then show ?thesis
    by (cases p) (auto simp: step_def listener_defs Let_def split: option.splits list.splits)
qed

lemma calls_vars [simp]:
  "calls (s\<lparr>lastActiveFontIndex := i\<rparr>) = calls s" "calls (s\<lparr>originalFont := f\<rparr>) = calls s"
  by simp_all

lemma activate_no_restore: "filter is_restore (calls (activate platform os settings)) = []"
  by (simp add: activate_def handleFontSelection_def Let_def split: sum.splits)

text \<open>No run of the refactored controller ever assigns the active items of a quick pick:
  the index it remembers is never used.\<close>

lemma active_items_never_set:
  "filter is_restore (calls (run es (activate platform os settings))) = []"
proof -
  have "filter is_restore (calls (run es s)) = filter is_restore (calls s)" for s
    by (induction es arbitrary: s) (simp_all add: step_no_restore)
  then show ?thesis by (simp add: activate_no_restore)
qed

text \<open>
  Claim C3 at a concrete run of the refactored controller. The fonts are Fira and Menlo;
  the user highlights and accepts Menlo, the font picker is hidden for the weight
  picker, the user highlights bold and dismisses the weight picker. The remembered index
  is 1 and the weight stays bold, but the listener only calls \<^verbatim>\<open>show\<close> on the font
  picker, which its own hide listener has disposed: the font picker is not on screen
  again, and no call sets its active items.
\<close>

theorem back_navigation_trace:
  "lastActiveFontIndex
      (run [DidChangeActive Font [''Menlo''], DidAccept Font [''Menlo''], DidHide Font,
            DidChangeActive Weight [''bold''], DidHide Weight]
         (activate ''linux'' (os_prints (''Fira'' @ [CHR 0x0A] @ ''Menlo'')) no_settings))
     = Some 1
   \<and> calls
      (run [DidChangeActive Font [''Menlo''], DidAccept Font [''Menlo''], DidHide Font,
            DidChangeActive Weight [''bold''], DidHide Weight]
         (activate ''linux'' (os_prints (''Fira'' @ [CHR 0x0A] @ ''Menlo'')) no_settings))
     = [ConfigGet ''fontFamily'', CreateQuickPick Font, ShowPick Font,
        ConfigUpdate ''fontFamily'' ''Menlo'', CreateQuickPick Weight, ShowPick Weight,
        HidePick Font, DisposePick Font, ConfigUpdate ''fontWeight'' ''bold'', ShowPick Font,
        DisposePick Weight]
   \<and> \<not> shown Font
      (run [DidChangeActive Font [''Menlo''], DidAccept Font [''Menlo''], DidHide Font,
            DidChangeActive Weight [''bold''], DidHide Weight]
         (activate ''linux'' (os_prints (''Fira'' @ [CHR 0x0A] @ ''Menlo'')) no_settings))
   \<and> \<not> live Font
      (run [DidChangeActive Font [''Menlo''], DidAccept Font [''Menlo''], DidHide Font,
            DidChangeActive Weight [''bold''], DidHide Weight]
         (activate ''linux'' (os_prints (''Fira'' @ [CHR 0x0A] @ ''Menlo'')) no_settings))
   \<and> config
      (run [DidChangeActive Font [''Menlo''], DidAccept Font [''Menlo''], DidHide Font,
            DidChangeActive Weight [''bold''], DidHide Weight]
         (activate ''linux'' (os_prints (''Fira'' @ [CHR 0x0A] @ ''Menlo'')) no_settings))
      ''fontWeight'' = Some ''bold''"
proof -
  have a: "activate ''linux'' (os_prints (''Fira'' @ [CHR 0x0A] @ ''Menlo'')) no_settings
     = handleFontSelection [''Fira'', ''Menlo''] (no_settings ''fontFamily'')
         (config_get ''fontFamily'' (initial no_settings))"
    by (rule activate_success [OF fonts_Fira_Menlo]) simp
  show ?thesis
    unfolding a by code_simp
qed

section \<open>Parsing the output of the registry query\<close>

lemma try_down_first: "mn \<le> n \<Longrightarrow> k n = Some r \<Longrightarrow> try_down k mn n = Some r"
  by (cases n) auto

lemma try_down_none: "(\<And>m. m \<le> n \<Longrightarrow> k m = None) \<Longrightarrow> try_down k mn n = None"
  by (induction n) auto

lemma try_down_short: "n < mn \<Longrightarrow> try_down k mn n = None"
  by (induction n) auto

lemma try_down_unique:
  "mn \<le> j \<Longrightarrow> j \<le> n \<Longrightarrow> k j = Some r \<Longrightarrow> (\<And>m. j < m \<Longrightarrow> m \<le> n \<Longrightarrow> k m = None)
   \<Longrightarrow> try_down k mn n = Some r"
proof (induction n)
  case 0
  then show ?case by simp
next
  case (Suc n)
  show ?case
  proof (cases "j = Suc n")
    case True
    with Suc.prems show ?thesis by simp
  next
    case False
    with Suc.prems have "j \<le> n" by simp
    moreover from False Suc.prems have "k (Suc n) = None" by simp
    moreover have "try_down k mn n = Some r"
      using Suc.prems \<open>j \<le> n\<close> by (intro Suc.IH) auto
    ultimately show ?thesis using Suc.prems by simp
  qed
qed

lemma try_down_last:
  "mn \<le> n \<Longrightarrow> (\<And>m. m < n \<Longrightarrow> k m = None) \<Longrightarrow> try_down k mn n = k n"
proof (cases "k n")
  case None
  assume "\<And>m. m < n \<Longrightarrow> k m = None"
  with None have "k m = None" if "m \<le> n" for m
    using that by (cases "m = n") auto
  then have "try_down k mn n = None" by (rule try_down_none)
  with None show ?thesis by simp
next
  case (Some r)
  assume "mn \<le> n"
  then show ?thesis using Some by (simp add: try_down_first)
qed

lemma run_length:
  "list_all cls w \<Longrightarrow> t = [] \<or> \<not> cls (hd t) \<Longrightarrow> length (takeWhile cls (w @ t)) = length w"
  by (induction w) (auto simp: takeWhile_eq_Nil_iff neq_Nil_conv)

lemma prev_after_run:
  "prev_after prev (w @ t) (length w) = (if w = [] then prev else Some (last w))"
  by (cases w rule: rev_cases) (simp_all add: prev_after_def)

lemma rmatch_Rep_run:
  assumes w: "list_all cls w" and t: "t = [] \<or> \<not> cls (hd t)"
    and fail: "\<And>p u. u \<noteq> [] \<Longrightarrow> cls (hd u) \<Longrightarrow> rmatch ps p u opens caps = None"
  shows "rmatch (Rep cls mn # ps) prev (w @ t) opens caps
    = (if mn \<le> length w
       then rmatch ps (if w = [] then prev else Some (last w)) t opens caps else None)"
proof (cases "mn \<le> length w")
  case False
  with run_length [OF w t] show ?thesis by (simp add: try_down_short)
next
  case True
  have "rmatch ps (prev_after prev (w @ t) m) (drop m (w @ t)) opens caps = None"
    if "m < length w" for m
  proof (rule fail)
    from that show "drop m (w @ t) \<noteq> []" by simp
    from that have "hd (drop m (w @ t)) = w ! m"
      by (simp add: hd_drop_conv_nth nth_append)
    with w that show "cls (hd (drop m (w @ t)))"
      by (simp add: list_all_length)
  qed
  then have "try_down (\<lambda>n. rmatch ps (prev_after prev (w @ t) n) (drop n (w @ t)) opens caps)
      mn (length w)
    = rmatch ps (prev_after prev (w @ t) (length w)) (drop (length w) (w @ t)) opens caps"
    using True by (intro try_down_last) auto
  with True run_length [OF w t] show ?thesis
    by (simp add: prev_after_run)
qed

lemma fail_token:
  "u \<noteq> [] \<Longrightarrow> \<not> cls (hd u) \<Longrightarrow> 0 < mn \<Longrightarrow>
   rmatch (GroupOpen g # Rep cls mn # ps) p u opens caps = None"
  by (cases u) (simp_all add: try_down_short)

lemma fail_gap:
  "u \<noteq> [] \<Longrightarrow> \<not> cls (hd u) \<Longrightarrow> 0 < mn \<Longrightarrow>
   rmatch (GroupClose g # Rep cls mn # ps) p u opens caps = None"
  by (cases u) (simp_all add: try_down_short)

lemma fail_type:
  "u \<noteq> [] \<Longrightarrow> isWhiteSpace (hd u) \<Longrightarrow> rmatch (Chars ''REG_SZ'' # ps) p u opens caps = None"
  by (cases u) (auto simp: startsWith_def isWhiteSpace_def)

lemma startsWith_short:
  assumes short: "length d < length p" and e: "e = [] \<or> isLineTerminator (hd e)"
    and p: "list_all (\<lambda>c. \<not> isLineTerminator c) p"
  shows "\<not> startsWith (d @ e) p"
proof
  assume "startsWith (d @ e) p"
  then have eq: "take (length p) (d @ e) = p" by (simp add: startsWith_def)
  then have "length (take (length p) (d @ e)) = length p" by simp
  then have "length p \<le> length (d @ e)" by simp
  with short have "e \<noteq> []" by auto
  with e have lt: "isLineTerminator (hd e)" by simp
  have "(d @ e) ! length d = hd e"
    using \<open>e \<noteq> []\<close> by (simp add: nth_append hd_conv_nth)
  moreover have "take (length p) (d @ e) ! length d = (d @ e) ! length d"
    using short by (intro nth_take)
  ultimately have "hd e = p ! length d" using eq by simp
  moreover from p short have "\<not> isLineTerminator (p ! length d)"
    by (simp add: list_all_length)
  ultimately show False using lt by simp
qed

lemma startsWith_line:
  assumes e: "e = [] \<or> isLineTerminator (hd e)" and p: "list_all (\<lambda>c. \<not> isLineTerminator c) p"
  shows "startsWith (d @ e) p = startsWith d p"
proof (cases "length d < length p")
  case True
  from startsWith_short [OF True e p] True show ?thesis
    by (auto simp: startsWith_def)
next
  case False
  then show ?thesis by (simp add: startsWith_def)
qed

lemma literal_at_end:
  assumes d: "list_all (\<lambda>c. \<not> isLineTerminator c) d" and e: "e = [] \<or> isLineTerminator (hd e)"
    and p: "list_all (\<lambda>c. \<not> isLineTerminator c) p"
  shows "(startsWith (d @ e) p
          \<and> (case drop (length p) (d @ e) of [] \<Rightarrow> True | x # _ \<Rightarrow> isLineTerminator x))
         = (d = p)"
proof (cases "length d < length p")
  case True
  then have "d \<noteq> p" by auto
  moreover from True e p have "\<not> startsWith (d @ e) p"
    by (rule startsWith_short)
  ultimately show ?thesis by simp
next
  case False
  show ?thesis
  proof (cases "length d = length p")
    case True
    then have "take (length p) (d @ e) = d" "drop (length p) (d @ e) = e" by simp_all
    with e show ?thesis by (auto simp: startsWith_def split: list.splits)
  next
    case long: False
    with False have 5: "length p < length d" by simp
    then have "d \<noteq> p" by auto
    moreover from 5 have "drop (length p) (d @ e) = d ! length p # drop (Suc (length p)) d @ e"
      by (simp add: Cons_nth_drop_Suc [symmetric])
    moreover from 5 d have "\<not> isLineTerminator (d ! length p)"
      by (simp add: list_all_length)
    ultimately show ?thesis by simp
  qed
qed

lemma rmatch_suffix:
  assumes u: "list_all (\<lambda>c. \<not> isLineTerminator c) u" and e: "e = [] \<or> isLineTerminator (hd e)"
    and j: "j \<le> length u"
  shows "rmatch [Chars ''.ttf'', GroupClose 2, LineEnd] p (drop j u @ e) (opens(2 \<mapsto> u @ e)) caps
    = (if drop j u = ''.ttf'' then Some (caps(2 \<mapsto> u), Some (CHR ''f''), e) else None)"
proof -
  have d: "list_all (\<lambda>c. \<not> isLineTerminator c) (drop j u)"
    using u by (auto simp: list_all_iff dest: in_set_dropD)
  have lit: "list_all (\<lambda>c. \<not> isLineTerminator c) ''.ttf''"
    by (simp add: isLineTerminator_def)
  note at_end = literal_at_end [OF d e lit]
  show ?thesis
  proof (cases "drop j u = ''.ttf''")
    case True
    then have "length (drop j u) = 4" by simp
    then have "length u - j = 4" by simp
    then have "length u + length e - length e = length u" by simp
    with True e show ?thesis
      by (auto simp: startsWith_def prev_after_def split: list.splits)
  next
    case False
    with at_end show ?thesis
      by (auto split: list.splits)
  qed
qed

lemma rmatch_data:
  assumes u: "list_all (\<lambda>c. \<not> isLineTerminator c) u" and e: "e = [] \<or> isLineTerminator (hd e)"
  shows "rmatch [GroupOpen 2, Rep (\<lambda>c. \<not> isLineTerminator c) 0, Chars ''.ttf'', GroupClose 2, LineEnd]
           p (u @ e) opens caps
    = (if endsWith u ''.ttf'' then Some (caps(2 \<mapsto> u), Some (CHR ''f''), e) else None)"
proof -
  have run: "length (takeWhile (\<lambda>c. \<not> isLineTerminator c) (u @ e)) = length u"
    using u e by (intro run_length) auto
  let ?k = "\<lambda>n. rmatch [Chars ''.ttf'', GroupClose 2, LineEnd] (prev_after p (u @ e) n)
      (drop n (u @ e)) (opens(2 \<mapsto> u @ e)) caps"
  have k: "?k j = (if drop j u = ''.ttf'' then Some (caps(2 \<mapsto> u), Some (CHR ''f''), e) else None)"
    if "j \<le> length u" for j
    using rmatch_suffix [OF u e that] that by simp
  show ?thesis
  proof (cases "endsWith u ''.ttf''")
    case True
    then have len: "4 \<le> length u" and suffix: "drop (length u - 4) u = ''.ttf''"
      by (simp_all add: endsWith_def eval_nat_numeral)
    have "try_down ?k 0 (length u) = Some (caps(2 \<mapsto> u), Some (CHR ''f''), e)"
    proof (rule try_down_unique [where j = "length u - 4"])
      show "?k (length u - 4) = Some (caps(2 \<mapsto> u), Some (CHR ''f''), e)"
        using k [of "length u - 4"] suffix by simp
      show "?k m = None" if "length u - 4 < m" "m \<le> length u" for m
      proof -
        from that have "length (drop m u) < 4" by simp
        moreover have "length ''.ttf'' = 4" by simp
        ultimately have "drop m u \<noteq> ''.ttf''" by (metis less_irrefl)
        with k [OF that(2)] show ?thesis by simp
      qed
    qed simp_all
    with True run show ?thesis by simp
  next
    case False
    have "?k m = None" if "m \<le> length u" for m
    proof -
      have "drop m u \<noteq> ''.ttf''"
      proof
        assume eq: "drop m u = ''.ttf''"
        then have "length (drop m u) = 4" by simp
        with that have "m = length u - 4" "4 \<le> length u" by simp_all
        with eq False show False by (simp add: endsWith_def eval_nat_numeral)
      qed
      with k [OF that] show ?thesis by simp
    qed
    then have "try_down ?k 0 (length u) = None" by (rule try_down_none)
    with False run show ?thesis by simp
  qed
qed

lemma lt_ws: "isLineTerminator c \<Longrightarrow> isWhiteSpace c"
  by (auto simp: isLineTerminator_def isWhiteSpace_def)

lemma blank_ws: "list_all isBlank s \<Longrightarrow> list_all isWhiteSpace s"
  by (simp add: list_all_iff isBlank_def)

lemma blank_no_lt: "list_all isBlank s \<Longrightarrow> list_all (\<lambda>c. \<not> isLineTerminator c) s"
  by (simp add: list_all_iff isBlank_def)

lemma try_down_Some:
  "try_down k mn n = Some r \<Longrightarrow> \<exists>m \<le> n. mn \<le> m \<and> k m = Some r"
proof (induction n)
  case 0
  then show ?case by (auto split: if_splits)
next
  case (Suc n)
  show ?case
  proof (cases "k (Suc n)")
    case None
    with Suc.prems have "try_down k mn n = Some r" by (auto split: if_splits)
    from Suc.IH [OF this] show ?thesis by (auto intro: le_SucI)
  next
    case (Some a)
    with Suc.prems have "a = r" "mn \<le> Suc n" by (auto split: if_splits)
    with Some show ?thesis by auto
  qed
qed

lemma captures_kept:
  "rmatch ps p s opens caps = Some (m, p', r) \<Longrightarrow> caps g \<noteq> None \<Longrightarrow> m g \<noteq> None"
proof (induction ps arbitrary: p s opens caps)
  case Nil
  then show ?case by simp
next
  case (Cons x ps)
  show ?case
  proof (cases x)
    case (Rep cls mn)
    with Cons.prems(1) obtain n where
      "rmatch ps (prev_after p s n) (drop n s) opens caps = Some (m, p', r)"
      by (auto dest: try_down_Some)
    from Cons.IH [OF this Cons.prems(2)] show ?thesis .
  next
    case (GroupClose h)
    with Cons.prems(1) have "rmatch ps p s opens
        (caps(h \<mapsto> (case opens h of None \<Rightarrow> [] | Some t \<Rightarrow> take (length t - length s) t)))
      = Some (m, p', r)"
      by simp
    from Cons.IH [OF this] Cons.prems(2) show ?thesis by simp
  qed (use Cons in \<open>auto split: if_splits\<close>)
qed

lemma group_captured:
  "rmatch ps p s opens caps = Some (m, p', r) \<Longrightarrow> GroupClose g \<in> set ps \<Longrightarrow> m g \<noteq> None"
proof (induction ps arbitrary: p s opens caps)
  case Nil
  then show ?case by simp
next
  case (Cons x ps)
  show ?case
  proof (cases x)
    case (Rep cls mn)
    with Cons.prems obtain n where
      "rmatch ps (prev_after p s n) (drop n s) opens caps = Some (m, p', r)"
      and "GroupClose g \<in> set ps"
      by (auto dest: try_down_Some)
    then show ?thesis by (rule Cons.IH)
  next
    case (GroupClose h)
    with Cons.prems(1) have rest: "rmatch ps p s opens
        (caps(h \<mapsto> (case opens h of None \<Rightarrow> [] | Some t \<Rightarrow> take (length t - length s) t)))
      = Some (m, p', r)"
      by simp
    show ?thesis
    proof (cases "h = g")
      case True
      from captures_kept [OF rest, of g] True show ?thesis by simp
    next
      case False
      with GroupClose Cons.prems(2) have "GroupClose g \<in> set ps" by simp
      with rest show ?thesis by (rule Cons.IH)
    qed
  qed (use Cons in \<open>auto split: if_splits\<close>)
qed

text \<open>The first group takes part in every match, so \<^verbatim>\<open>match[1]\<close> is a string whenever
  the loop reads it.\<close>

lemma match_has_name:
  "regex_exec regex prev s = Some (m, prev', rest) \<Longrightarrow> m 1 \<noteq> None"
proof (induction s arbitrary: prev)
  case Nil
  then have "rmatch regex prev [] Map.empty Map.empty = Some (m, prev', rest)" by simp
  then show ?case by (rule group_captured) (simp add: regex_def)
next
  case (Cons c cs)
  show ?case
  proof (cases "rmatch regex prev (c # cs) Map.empty Map.empty")
    case None
    with Cons.prems have "regex_exec regex (Some c) cs = Some (m, prev', rest)" by simp
    then show ?thesis by (rule Cons.IH)
  next
    case (Some a)
    with Cons.prems have "rmatch regex prev (c # cs) Map.empty Map.empty = Some (m, prev', rest)"
      by simp
    then show ?thesis by (rule group_captured) (simp add: regex_def)
  qed
qed

lemma captures_untouched:
  "rmatch ps p s opens caps = Some (m, p', r) \<Longrightarrow> GroupClose g \<notin> set ps \<Longrightarrow> m g = caps g"
proof (induction ps arbitrary: p s opens caps)
  case Nil
  then show ?case by simp
next
  case (Cons x ps)
  show ?case
  proof (cases x)
    case (Rep cls mn)
    with Cons.prems obtain n where
      "rmatch ps (prev_after p s n) (drop n s) opens caps = Some (m, p', r)"
      and "GroupClose g \<notin> set ps"
      by (auto dest: try_down_Some)
    then show ?thesis by (rule Cons.IH)
  next
    case (GroupClose h)
    with Cons.prems have rest: "rmatch ps p s opens
        (caps(h \<mapsto> (case opens h of None \<Rightarrow> [] | Some t \<Rightarrow> take (length t - length s) t)))
      = Some (m, p', r)" and "h \<noteq> g" "GroupClose g \<notin> set ps"
      by auto
    from Cons.IH [OF rest \<open>GroupClose g \<notin> set ps\<close>] \<open>h \<noteq> g\<close> show ?thesis by simp
  qed (use Cons in \<open>auto split: if_splits\<close>)
qed

lemma take_run:
  "k \<le> length (takeWhile cls s) \<Longrightarrow> list_all cls (take k s)"
proof -
  assume k: "k \<le> length (takeWhile cls s)"
  have "take k s = take k (takeWhile cls s @ dropWhile cls s)" by simp
  also have "\<dots> = take k (takeWhile cls s)" using k by (simp del: takeWhile_dropWhile_id)
  finally have "set (take k s) \<subseteq> set (takeWhile cls s)" by (simp add: set_take_subset)
  then show ?thesis by (auto simp: list_all_iff dest: set_takeWhileD)
qed

text \<open>The first group is a run of characters that are no white space, whatever the
  input: a name with white space in it is never captured, and never returned.\<close>

lemma first_group_token:
  assumes "rmatch regex prev s Map.empty Map.empty = Some (m, p', r)"
  shows "\<exists>name. m 1 = Some name \<and> name \<noteq> [] \<and> list_all (\<lambda>c. \<not> isWhiteSpace c) name"
proof -
  let ?tail = "[Rep isWhiteSpace 1, Chars ''REG_SZ'', Rep isWhiteSpace 1,
      GroupOpen 2, Rep (\<lambda>c. \<not> isLineTerminator c) 0, Chars ''.ttf'', GroupClose 2, LineEnd]"
  from assms have "try_down (\<lambda>n. rmatch (GroupOpen 1 # Rep (\<lambda>c. \<not> isWhiteSpace c) 1 # GroupClose 1
        # ?tail) (prev_after prev s n) (drop n s) Map.empty Map.empty) 0
        (length (takeWhile isWhiteSpace s)) = Some (m, p', r)"
    by (simp add: regex_def split: if_splits)
  then obtain n where "rmatch (GroupOpen 1 # Rep (\<lambda>c. \<not> isWhiteSpace c) 1 # GroupClose 1 # ?tail)
      (prev_after prev s n) (drop n s) Map.empty Map.empty = Some (m, p', r)"
    by (auto dest: try_down_Some)
  then have "try_down (\<lambda>k. rmatch (GroupClose 1 # ?tail)
        (prev_after (prev_after prev s n) (drop n s) k) (drop k (drop n s)) [1 \<mapsto> drop n s]
        Map.empty) 1 (length (takeWhile (\<lambda>c. \<not> isWhiteSpace c) (drop n s))) = Some (m, p', r)"
    by simp
  from try_down_Some [OF this] obtain k where k: "1 \<le> k"
      "k \<le> length (takeWhile (\<lambda>c. \<not> isWhiteSpace c) (drop n s))"
    and "rmatch (GroupClose 1 # ?tail) (prev_after (prev_after prev s n) (drop n s) k)
        (drop k (drop n s)) [1 \<mapsto> drop n s] Map.empty = Some (m, p', r)"
    by blast
  then have rest: "rmatch ?tail (prev_after (prev_after prev s n) (drop n s) k)
        (drop k (drop n s)) [1 \<mapsto> drop n s]
        [1 \<mapsto> take (length (drop n s) - length (drop k (drop n s))) (drop n s)] = Some (m, p', r)"
    by simp
  have "k \<le> length (drop n s)"
    using k(2) length_takeWhile_le [of "\<lambda>c. \<not> isWhiteSpace c" "drop n s"] by (rule order_trans)
  then have len: "length (drop n s) - length (drop k (drop n s)) = k"
    by simp
  have "m 1 = Some (take k (drop n s))"
    using captures_untouched [OF rest, of 1] unfolding len by simp
  moreover from k(1) \<open>k \<le> length (drop n s)\<close> have "take k (drop n s) \<noteq> []"
    by auto
  moreover from k(2) have "list_all (\<lambda>c. \<not> isWhiteSpace c) (take k (drop n s))"
    by (rule take_run)
  ultimately show ?thesis by blast
qed

lemma regex_exec_token:
  "regex_exec regex prev s = Some (m, prev', rest) \<Longrightarrow>
   \<exists>name. m 1 = Some name \<and> name \<noteq> [] \<and> list_all (\<lambda>c. \<not> isWhiteSpace c) name"
proof (induction s arbitrary: prev)
  case Nil
  then have "rmatch regex prev [] Map.empty Map.empty = Some (m, prev', rest)" by simp
  then show ?case by (rule first_group_token)
next
  case (Cons c cs)
  show ?case
  proof (cases "rmatch regex prev (c # cs) Map.empty Map.empty")
    case None
    with Cons.prems have "regex_exec regex (Some c) cs = Some (m, prev', rest)" by simp
    then show ?thesis by (rule Cons.IH)
  next
    case (Some a)
    with Cons.prems have "rmatch regex prev (c # cs) Map.empty Map.empty = Some (m, prev', rest)"
      by simp
    then show ?thesis by (rule first_group_token)
  qed
qed

lemma loop_tokens:
  "list_all (\<lambda>name. name \<noteq> [] \<and> list_all (\<lambda>c. \<not> isWhiteSpace c) name) fonts \<Longrightarrow>
   list_all (\<lambda>name. name \<noteq> [] \<and> list_all (\<lambda>c. \<not> isWhiteSpace c) name) (match_loop prev s fonts)"
proof (induction prev s fonts rule: match_loop.induct)
  case (1 prev s fonts)
  show ?case
  proof (cases "regex_exec regex prev s")
    case None
    with "1.prems" show ?thesis by (subst match_loop.simps) simp
  next
    case (Some x)
    obtain m prev' rest where x: "x = (m, prev', rest)" by (cases x)
    from regex_exec_token [OF Some [unfolded x]] obtain name where name: "m 1 = Some name"
      and tok: "name \<noteq> []" "list_all (\<lambda>c. \<not> isWhiteSpace c) name"
      by blast
    let ?fonts = "if includes_str (toLowerCase name) ''mono'' then Set_add fonts name else fonts"
    from "1.prems" tok
    have "list_all (\<lambda>name. name \<noteq> [] \<and> list_all (\<lambda>c. \<not> isWhiteSpace c) name) ?fonts"
      by (simp add: Set_add_def)
    with "1.IH"(2) [OF Some x [symmetric] refl name]
    have "list_all (\<lambda>name. name \<noteq> [] \<and> list_all (\<lambda>c. \<not> isWhiteSpace c) name)
        (match_loop prev' rest ?fonts)" .
    with Some x name show ?thesis by (subst match_loop.simps) simp
  qed
qed

lemma names_without_space:
  "name \<in> set (parseMonospacedFonts output ''win32'') \<Longrightarrow>
   name \<noteq> [] \<and> list_all (\<lambda>c. \<not> isWhiteSpace c) name"
  using loop_tokens [of "[]" None "output"]
  by (simp add: parseMonospacedFonts_def list_all_iff)

declare rmatch.simps [simp del]

lemma rmatch_not_line_start:
  "\<not> line_start prev \<Longrightarrow> rmatch regex prev s opens caps = None"
  by (simp add: regex_def line_start_def rmatch.simps)

lemma rmatch_name:
  assumes bol: "line_start prev" and w: "list_all isWhiteSpace w" and tok: "is_token tok"
    and sep: "is_gap sep" and x: "x \<noteq> []" "\<not> isWhiteSpace (hd x)"
  shows "rmatch regex prev (w @ tok @ sep @ x) Map.empty Map.empty
    = rmatch [Chars ''REG_SZ'', Rep isWhiteSpace 1, GroupOpen 2,
              Rep (\<lambda>c. \<not> isLineTerminator c) 0, Chars ''.ttf'', GroupClose 2, LineEnd]
        (Some (last sep)) x [1 \<mapsto> tok @ sep @ x] [1 \<mapsto> tok]"
proof -
  let ?tail = "[Chars ''REG_SZ'', Rep isWhiteSpace 1, GroupOpen 2,
              Rep (\<lambda>c. \<not> isLineTerminator c) 0, Chars ''.ttf'', GroupClose 2, LineEnd]"
  from tok have tok_ne: "tok \<noteq> []" and tok_all: "list_all (\<lambda>c. \<not> isWhiteSpace c) tok"
    by (simp_all add: is_token_def)
  from sep have sep_ne: "sep \<noteq> []" and sep_all: "list_all isWhiteSpace sep"
    by (simp_all add: is_gap_def blank_ws)
  from tok_ne tok_all have hd_tok: "\<not> isWhiteSpace (hd (tok @ sep @ x))"
    by (cases tok) simp_all
  from sep_ne sep_all have hd_sep: "isWhiteSpace (hd (sep @ x))"
    by (cases sep) simp_all
  have 1: "rmatch (Rep isWhiteSpace 0 # GroupOpen 1 # Rep (\<lambda>c. \<not> isWhiteSpace c) 1 # GroupClose 1
        # Rep isWhiteSpace 1 # ?tail) prev (w @ tok @ sep @ x) Map.empty Map.empty
      = rmatch (GroupOpen 1 # Rep (\<lambda>c. \<not> isWhiteSpace c) 1 # GroupClose 1
        # Rep isWhiteSpace 1 # ?tail) (if w = [] then prev else Some (last w)) (tok @ sep @ x)
          Map.empty Map.empty"
    using hd_tok by (subst rmatch_Rep_run [OF w]) (simp_all add: fail_token)
  have 2: "rmatch (Rep (\<lambda>c. \<not> isWhiteSpace c) 1 # GroupClose 1 # Rep isWhiteSpace 1 # ?tail) p
        (tok @ sep @ x) opens Map.empty
      = rmatch (GroupClose 1 # Rep isWhiteSpace 1 # ?tail) (Some (last tok)) (sep @ x)
          opens Map.empty" for p opens
    using hd_sep tok_ne
    by (subst rmatch_Rep_run [OF tok_all]) (simp_all add: fail_gap Suc_le_eq)
  have 3: "rmatch (Rep isWhiteSpace 1 # ?tail) p (sep @ x) opens caps
      = rmatch ?tail (Some (last sep)) x opens caps" for p opens caps
    using x sep_ne
    by (subst rmatch_Rep_run [OF sep_all]) (simp_all add: fail_type Suc_le_eq)
  have "rmatch regex prev (w @ tok @ sep @ x) Map.empty Map.empty
      = rmatch (Rep isWhiteSpace 0 # GroupOpen 1 # Rep (\<lambda>c. \<not> isWhiteSpace c) 1 # GroupClose 1
        # Rep isWhiteSpace 1 # ?tail) prev (w @ tok @ sep @ x) Map.empty Map.empty"
    using bol by (simp add: regex_def line_start_def rmatch.simps)
  also note 1
  also have "rmatch (GroupOpen 1 # Rep (\<lambda>c. \<not> isWhiteSpace c) 1 # GroupClose 1
        # Rep isWhiteSpace 1 # ?tail) (if w = [] then prev else Some (last w)) (tok @ sep @ x)
          Map.empty Map.empty
      = rmatch (GroupClose 1 # Rep isWhiteSpace 1 # ?tail) (Some (last tok)) (sep @ x)
          [1 \<mapsto> tok @ sep @ x] Map.empty"
    by (subst rmatch.simps(6)) (rule 2)
  also have "\<dots> = rmatch (Rep isWhiteSpace 1 # ?tail) (Some (last tok)) (sep @ x)
          [1 \<mapsto> tok @ sep @ x] [1 \<mapsto> tok]"
    by (subst rmatch.simps(7)) simp
  also note 3
  finally show ?thesis .
qed

lemma endsWith_after_blank:
  assumes b: "list_all isWhiteSpace b" and p: "list_all (\<lambda>c. \<not> isWhiteSpace c) p" "p \<noteq> []"
  shows "endsWith (b @ v) p = endsWith v p"
proof (cases "length p \<le> length v")
  case True
  then have "length (b @ v) - length p = length b + (length v - length p)" by simp
  then have "drop (length (b @ v) - length p) (b @ v) = drop (length v - length p) v"
    by (simp del: length_append)
  with True show ?thesis by (simp add: endsWith_def)
next
  case False
  then have no: "\<not> endsWith v p" by (simp add: endsWith_def)
  have "\<not> endsWith (b @ v) p"
  proof
    assume "endsWith (b @ v) p"
    then have len: "length p \<le> length (b @ v)"
      and eq: "drop (length (b @ v) - length p) (b @ v) = p"
      by (simp_all add: endsWith_def)
    let ?i = "length (b @ v) - length p"
    from False len have i: "?i < length b" by simp
    then have "hd (drop ?i (b @ v)) = b ! ?i"
      by (simp add: hd_drop_conv_nth nth_append del: length_append)
    with eq have "hd p = b ! ?i" by simp
    moreover from b i have "isWhiteSpace (b ! ?i)" by (simp add: list_all_length)
    moreover from p have "\<not> isWhiteSpace (hd p)" by (cases p) simp_all
    ultimately show False by simp
  qed
  with no show ?thesis by simp
qed

lemma rmatch_other:
  assumes bol: "line_start prev" and w: "list_all isWhiteSpace w" and tok: "is_token tok"
    and sep: "is_gap sep" and tl: "is_text t" "\<not> startsWith t ''REG_SZ''"
    and e: "is_line_end e"
  shows "rmatch regex prev (w @ tok @ sep @ t @ e @ rest) Map.empty Map.empty = None"
proof -
  from tl have x: "t @ e @ rest \<noteq> []" "\<not> isWhiteSpace (hd (t @ e @ rest))"
    by (simp_all add: is_text_def)
  from e have "e @ rest = [] \<or> isLineTerminator (hd (e @ rest))"
    by (simp add: is_line_end_def)
  moreover have "list_all (\<lambda>c. \<not> isLineTerminator c) ''REG_SZ''"
    by (simp add: isLineTerminator_def)
  ultimately have "startsWith (t @ e @ rest) ''REG_SZ'' = startsWith t ''REG_SZ''"
    by (rule startsWith_line)
  with tl have "\<not> startsWith (t @ e @ rest) ''REG_SZ''" by simp
  then show ?thesis
    unfolding rmatch_name [OF bol w tok sep x] by (simp add: rmatch.simps(4))
qed

lemma rmatch_entry:
  assumes bol: "line_start prev" and w: "list_all isWhiteSpace w" and tok: "is_token tok"
    and sep: "is_gap sep" and sep2: "is_gap sep2" and v: "is_text v" and e: "is_line_end e"
  shows "rmatch regex prev (w @ tok @ sep @ ''REG_SZ'' @ sep2 @ v @ e @ rest) Map.empty Map.empty
    = (if endsWith v ''.ttf'' then Some ([1 \<mapsto> tok, 2 \<mapsto> v], Some (CHR ''f''), e @ rest)
       else None)"
proof -
  let ?x = "''REG_SZ'' @ sep2 @ v @ e @ rest"
  let ?data = "[GroupOpen 2, Rep (\<lambda>c. \<not> isLineTerminator c) 0, Chars ''.ttf'', GroupClose 2,
      LineEnd]"
  let ?opens = "[1 \<mapsto> tok @ sep @ ?x]"
  have x: "?x \<noteq> []" "\<not> isWhiteSpace (hd ?x)"
    by (simp_all add: isWhiteSpace_def)
  from sep2 have sep2_ne: "sep2 \<noteq> []" and sep2_ws: "list_all isWhiteSpace sep2"
    and sep2_lt: "list_all (\<lambda>c. \<not> isLineTerminator c) sep2"
    by (simp_all add: is_gap_def blank_ws blank_no_lt)
  from v have v_ne: "v \<noteq> []" and v_hd: "\<not> isWhiteSpace (hd v)"
    and v_lt: "list_all (\<lambda>c. \<not> isLineTerminator c) v"
    by (simp_all add: is_text_def)
  from e have e_lt: "e @ rest = [] \<or> isLineTerminator (hd (e @ rest))"
    by (simp add: is_line_end_def)
  have run: "length (takeWhile isWhiteSpace (sep2 @ v @ e @ rest)) = length sep2"
    using v_ne v_hd by (intro run_length [OF sep2_ws]) simp
  let ?k = "\<lambda>n. rmatch ?data (prev_after (Some (CHR ''Z'')) (sep2 @ v @ e @ rest) n)
      (drop n (sep2 @ v @ e @ rest)) ?opens [1 \<mapsto> tok]"
  have k: "?k m = (if endsWith v ''.ttf''
      then Some ([1 \<mapsto> tok, 2 \<mapsto> drop m sep2 @ v], Some (CHR ''f''), e @ rest) else None)"
    if "m \<le> length sep2" for m
  proof -
    have u: "list_all (\<lambda>c. \<not> isLineTerminator c) (drop m sep2 @ v)"
      using sep2_lt v_lt by (auto simp: list_all_iff dest: in_set_dropD)
    have "list_all isWhiteSpace (drop m sep2)"
      using sep2_ws by (auto simp: list_all_iff dest: in_set_dropD)
    moreover have "list_all (\<lambda>c. \<not> isWhiteSpace c) ''.ttf''" "''.ttf'' \<noteq> []"
      by (simp_all add: isWhiteSpace_def)
    ultimately have "endsWith (drop m sep2 @ v) ''.ttf'' = endsWith v ''.ttf''"
      by (rule endsWith_after_blank)
    with rmatch_data [OF u e_lt, of _ ?opens "[1 \<mapsto> tok]"] that show ?thesis
      by simp
  qed
  have rep: "try_down ?k 1 (length sep2)
      = (if endsWith v ''.ttf'' then Some ([1 \<mapsto> tok, 2 \<mapsto> v], Some (CHR ''f''), e @ rest)
         else None)"
  proof (cases "endsWith v ''.ttf''")
    case True
    with k [of "length sep2"] have "?k (length sep2)
        = Some ([1 \<mapsto> tok, 2 \<mapsto> v], Some (CHR ''f''), e @ rest)"
      by simp
    moreover from sep2_ne have "1 \<le> length sep2" by (cases sep2) simp_all
    ultimately have "try_down ?k 1 (length sep2)
        = Some ([1 \<mapsto> tok, 2 \<mapsto> v], Some (CHR ''f''), e @ rest)"
      by (intro try_down_first)
    with True show ?thesis by simp
  next
    case False
    with k have "?k m = None" if "m \<le> length sep2" for m
      using that by simp
    then have "try_down ?k 1 (length sep2) = None" by (rule try_down_none)
    with False show ?thesis by simp
  qed
  have "rmatch [Chars ''REG_SZ'', Rep isWhiteSpace 1, GroupOpen 2,
              Rep (\<lambda>c. \<not> isLineTerminator c) 0, Chars ''.ttf'', GroupClose 2, LineEnd]
        (Some (last sep)) ?x ?opens [1 \<mapsto> tok]
      = rmatch (Rep isWhiteSpace 1 # ?data) (Some (CHR ''Z'')) (sep2 @ v @ e @ rest) ?opens
          [1 \<mapsto> tok]"
    by (subst rmatch.simps(4)) (simp add: startsWith_def prev_after_def)
  also have "\<dots> = try_down ?k 1 (length sep2)"
    by (subst rmatch.simps(5)) (simp only: run)
  also note rep
  finally show ?thesis
    unfolding rmatch_name [OF bol w tok sep x] .
qed

declare match_loop.simps [simp del]

lemma fail_token_end:
  "0 < mn \<Longrightarrow> rmatch (GroupOpen g # Rep cls mn # ps) p [] opens caps = None"
  by (simp add: rmatch.simps try_down_short)

lemma regex_exec_hit:
  "rmatch r prev s Map.empty Map.empty = Some m \<Longrightarrow> regex_exec r prev s = Some m"
  by (cases s) simp_all

lemma regex_exec_miss:
  "rmatch r prev (c # cs) Map.empty Map.empty = None
   \<Longrightarrow> regex_exec r prev (c # cs) = regex_exec r (Some c) cs"
  by simp

lemma regex_exec_skip:
  "(\<And>a b. u = a @ b \<Longrightarrow> b \<noteq> [] \<Longrightarrow>
      rmatch regex (if a = [] then prev else Some (last a)) (b @ t) Map.empty Map.empty = None)
   \<Longrightarrow> regex_exec regex prev (u @ t) = regex_exec regex (if u = [] then prev else Some (last u)) t"
proof (induction u arbitrary: prev)
  case Nil
  show ?case by simp
next
  case (Cons c cs)
  have "rmatch regex prev ((c # cs) @ t) Map.empty Map.empty = None"
    using Cons.prems [of "[]" "c # cs"] by simp
  then have "regex_exec regex prev ((c # cs) @ t) = regex_exec regex (Some c) (cs @ t)"
    by simp
  also have "\<dots> = regex_exec regex (if cs = [] then Some c else Some (last cs)) t"
  proof (rule Cons.IH)
    fix a b
    assume "cs = a @ b" "b \<noteq> []"
    with Cons.prems [of "c # a" b]
    show "rmatch regex (if a = [] then Some c else Some (last a)) (b @ t) Map.empty Map.empty
        = None"
      by (cases "a = []") simp_all
  qed
  finally show ?case by simp
qed

lemma regex_exec_find:
  assumes hit: "\<And>p w'. line_start p \<Longrightarrow> list_all isWhiteSpace w'
      \<Longrightarrow> rmatch regex p (w' @ s) Map.empty Map.empty = Some m"
  shows "list_all isWhiteSpace w \<Longrightarrow> reaches_line_start prev w
    \<Longrightarrow> regex_exec regex prev (w @ s) = Some m"
proof (induction w arbitrary: prev)
  case Nil
  then have "line_start prev" by (simp add: reaches_line_start_def)
  from hit [OF this, of "[]"] show ?case by (simp add: regex_exec_hit)
next
  case (Cons c cs)
  show ?case
  proof (cases "line_start prev")
    case True
    from hit [OF True Cons.prems(1)] show ?thesis by (rule regex_exec_hit)
  next
    case False
    then have "rmatch regex prev (c # cs @ s) Map.empty Map.empty = None"
      by (rule rmatch_not_line_start)
    then have "regex_exec regex prev ((c # cs) @ s) = regex_exec regex (Some c) (cs @ s)"
      by simp
    moreover from False Cons.prems(2) have "reaches_line_start (Some c) cs"
      by (auto simp: reaches_line_start_def line_start_def)
    moreover from Cons.prems(1) have "list_all isWhiteSpace cs" by simp
    ultimately show ?thesis using Cons.IH by simp
  qed
qed

lemma regex_exec_pass:
  assumes none: "\<And>p w'. line_start p \<Longrightarrow> list_all isWhiteSpace w'
      \<Longrightarrow> rmatch regex p (w' @ body @ t) Map.empty Map.empty = None"
    and body: "body \<noteq> []" "list_all (\<lambda>c. \<not> isLineTerminator c) body"
    and w: "list_all isWhiteSpace w"
  shows "regex_exec regex prev (w @ body @ t) = regex_exec regex (Some (last body)) t"
proof -
  have "regex_exec regex prev ((w @ body) @ t)
      = regex_exec regex (if w @ body = [] then prev else Some (last (w @ body))) t"
  proof (rule regex_exec_skip)
    fix a b
    assume split: "w @ body = a @ b" and b: "b \<noteq> []"
    let ?p = "if a = [] then prev else Some (last a)"
    show "rmatch regex ?p (b @ t) Map.empty Map.empty = None"
    proof (cases "line_start ?p")
      case False
      then show ?thesis by (rule rmatch_not_line_start)
    next
      case True
      from split obtain us where "a = w @ us \<and> us @ b = body \<or> a @ us = w \<and> b = us @ body"
        by (auto simp: append_eq_append_conv2)
      then show ?thesis
      proof
        assume inside: "a = w @ us \<and> us @ b = body"
        show ?thesis
        proof (cases "us = []")
          case True
          with inside have "b = [] @ body" by simp
          with none [OF \<open>line_start ?p\<close>, of "[]"] show ?thesis by simp
        next
          case False
          with inside have "last a = last us" "last us \<in> set body" "a \<noteq> []"
            by auto
          with body(2) have "\<not> isLineTerminator (last a)" by (simp add: list_all_iff)
          with \<open>a \<noteq> []\<close> have "\<not> line_start ?p" by (simp add: line_start_def)
          with True show ?thesis by simp
        qed
      next
        assume before: "a @ us = w \<and> b = us @ body"
        with w have "list_all isWhiteSpace us" by auto
        from none [OF True this] before show ?thesis by simp
      qed
    qed
  qed
  with body(1) show ?thesis by simp
qed

lemma rmatch_blank: "list_all isWhiteSpace w \<Longrightarrow> rmatch regex p w Map.empty Map.empty = None"
proof -
  assume w: "list_all isWhiteSpace w"
  let ?rest = "[GroupClose 1, Rep isWhiteSpace 1, Chars ''REG_SZ'', Rep isWhiteSpace 1, GroupOpen 2,
      Rep (\<lambda>c. \<not> isLineTerminator c) 0, Chars ''.ttf'', GroupClose 2, LineEnd]"
  have "rmatch (Rep isWhiteSpace 0 # GroupOpen 1 # Rep (\<lambda>c. \<not> isWhiteSpace c) 1 # ?rest) p (w @ [])
      Map.empty Map.empty = None"
    by (subst rmatch_Rep_run [OF w]) (simp_all add: fail_token fail_token_end)
  then show ?thesis
    by (simp add: regex_def rmatch.simps(2))
qed

lemma regex_exec_blank: "list_all isWhiteSpace w \<Longrightarrow> regex_exec regex prev w = None"
  by (induction w arbitrary: prev) (simp_all add: rmatch_blank)

lemma loop_end: "regex_exec regex p s = None \<Longrightarrow> match_loop p s fonts = fonts"
  by (subst match_loop.simps) simp

lemma loop_hit:
  "regex_exec regex p s = Some (m, p', r) \<Longrightarrow> m 1 = Some name \<Longrightarrow>
   match_loop p s fonts
   = match_loop p' r
       (if includes_str (toLowerCase name) ''mono'' then Set_add fonts name else fonts)"
  by (subst match_loop.simps) simp

lemma loop_cong:
  "regex_exec regex p s = regex_exec regex p' s' \<Longrightarrow> match_loop p s fonts = match_loop p' s' fonts"
  by (subst match_loop.simps, subst (2) match_loop.simps) simp

lemma token_no_lt: "is_token s \<Longrightarrow> list_all (\<lambda>c. \<not> isLineTerminator c) s"
  by (auto simp: is_token_def list_all_iff dest: lt_ws)

lemma gap_no_lt: "is_gap s \<Longrightarrow> list_all (\<lambda>c. \<not> isLineTerminator c) s"
  by (simp add: is_gap_def blank_no_lt)

lemma text_no_lt: "is_text s \<Longrightarrow> list_all (\<lambda>c. \<not> isLineTerminator c) s"
  by (simp add: is_text_def)

lemma literal_no_lt: "list_all (\<lambda>c. \<not> isLineTerminator c) ''REG_SZ''"
  by (simp add: isLineTerminator_def)

lemma line_end_reaches: "is_line_end e \<Longrightarrow> reaches_line_start p e"
  by (cases e) (auto simp: is_line_end_def reaches_line_start_def)

lemma reaches_append: "reaches_line_start p w \<Longrightarrow> reaches_line_start p (w @ ind)"
  by (auto simp: reaches_line_start_def)

lemma loop_line:
  assumes l: "token_line l" and w: "list_all isWhiteSpace w" and r: "reaches_line_start prev w"
  shows "\<exists>p e. is_line_end e \<and>
     match_loop prev (w @ render l @ rest) fonts
     = match_loop p (e @ rest)
         (if mono_font l then Set_add fonts (entry_name l) else fonts)"
proof (cases l)
  case (Entry ind name sep1 sep2 v eol)
  with l have ind: "list_all isBlank ind" and name: "is_token name" and sep1: "is_gap sep1"
    and sep2: "is_gap sep2" and v: "is_text v" and eol: "is_line_end eol"
    by simp_all
  from w ind have w': "list_all isWhiteSpace (w @ ind)" by (simp add: blank_ws)
  from r have r': "reaches_line_start prev (w @ ind)" by (rule reaches_append)
  let ?s = "name @ sep1 @ ''REG_SZ'' @ sep2 @ v @ eol @ rest"
  have input: "w @ render l @ rest = (w @ ind) @ ?s"
    using Entry by simp
  show ?thesis
  proof (cases "endsWith v ''.ttf''")
    case True
    have "regex_exec regex prev ((w @ ind) @ ?s)
        = Some ([1 \<mapsto> name, 2 \<mapsto> v], Some (CHR ''f''), eol @ rest)"
      using w' r'
    proof (rule regex_exec_find [rotated])
      show "rmatch regex p (w' @ ?s) Map.empty Map.empty
          = Some ([1 \<mapsto> name, 2 \<mapsto> v], Some (CHR ''f''), eol @ rest)"
        if "line_start p" "list_all isWhiteSpace w'" for p w'
        using rmatch_entry [OF that name sep1 sep2 v eol, of rest] True by simp
    qed
    then have "match_loop prev ((w @ ind) @ ?s) fonts
        = match_loop (Some (CHR ''f'')) (eol @ rest)
            (if includes_str (toLowerCase name) ''mono'' then Set_add fonts name else fonts)"
      by (rule loop_hit) simp
    with True Entry eol show ?thesis
      unfolding input by (auto simp: mono_font_def)
  next
    case False
    let ?body = "name @ sep1 @ ''REG_SZ'' @ sep2 @ v"
    have "regex_exec regex prev ((w @ ind) @ ?body @ eol @ rest)
        = regex_exec regex (Some (last ?body)) (eol @ rest)"
    proof (rule regex_exec_pass [OF _ _ _ w'])
      show "rmatch regex p (w' @ ?body @ eol @ rest) Map.empty Map.empty = None"
        if "line_start p" "list_all isWhiteSpace w'" for p w'
        using rmatch_entry [OF that name sep1 sep2 v eol, of rest] False by simp
      from name show "?body \<noteq> []" by (simp add: is_token_def)
      show "list_all (\<lambda>c. \<not> isLineTerminator c) ?body"
        using token_no_lt [OF name] gap_no_lt [OF sep1] gap_no_lt [OF sep2] text_no_lt [OF v]
          literal_no_lt
        by simp
    qed
    then have "match_loop prev ((w @ ind) @ ?body @ eol @ rest) fonts
        = match_loop (Some (last ?body)) (eol @ rest) fonts"
      by (rule loop_cong)
    with False Entry eol show ?thesis
      unfolding input by (auto simp: mono_font_def)
  qed
next
  case (Other ind tok sep t eol)
  with l have ind: "list_all isBlank ind" and tok: "is_token tok" and sep: "is_gap sep"
    and t: "is_text t" "\<not> startsWith t ''REG_SZ''" and eol: "is_line_end eol"
    by simp_all
  from w ind have w': "list_all isWhiteSpace (w @ ind)" by (simp add: blank_ws)
  let ?body = "tok @ sep @ t"
  have input: "w @ render l @ rest = (w @ ind) @ ?body @ eol @ rest"
    using Other by simp
  have "regex_exec regex prev ((w @ ind) @ ?body @ eol @ rest)
      = regex_exec regex (Some (last ?body)) (eol @ rest)"
  proof (rule regex_exec_pass [OF _ _ _ w'])
    show "rmatch regex p (w' @ ?body @ eol @ rest) Map.empty Map.empty = None"
      if "line_start p" "list_all isWhiteSpace w'" for p w'
      using rmatch_other [OF that tok sep t eol, of rest] by simp
    from tok show "?body \<noteq> []" by (simp add: is_token_def)
    show "list_all (\<lambda>c. \<not> isLineTerminator c) ?body"
      using token_no_lt [OF tok] gap_no_lt [OF sep] text_no_lt [OF t(1)] by simp
  qed
  then have "match_loop prev ((w @ ind) @ ?body @ eol @ rest) fonts
      = match_loop (Some (last ?body)) (eol @ rest) fonts"
    by (rule loop_cong)
  with Other eol show ?thesis
    unfolding input by (auto simp: mono_font_def)
qed

lemma loop_lines:
  "list_all token_line ls \<Longrightarrow> list_all isWhiteSpace w \<Longrightarrow> reaches_line_start prev w \<Longrightarrow>
   match_loop prev (w @ concat (map render ls)) fonts
   = foldl (\<lambda>fonts l. if mono_font l then Set_add fonts (entry_name l) else fonts) fonts ls"
proof (induction ls arbitrary: prev w fonts)
  case Nil
  then show ?case by (simp add: loop_end regex_exec_blank)
next
  case (Cons l ls)
  from Cons.prems have l: "token_line l" and ls: "list_all token_line ls" by simp_all
  from loop_line [OF l Cons.prems(2,3), of "concat (map render ls)" fonts]
  obtain p e where e: "is_line_end e"
    and step: "match_loop prev (w @ render l @ concat (map render ls)) fonts
      = match_loop p (e @ concat (map render ls))
          (if mono_font l then Set_add fonts (entry_name l) else fonts)"
    by blast
  from e have "list_all isWhiteSpace e" by (simp add: is_line_end_def)
  from Cons.IH [OF ls this line_end_reaches [OF e]] step
  show ?case by simp
qed

text \<open>
  On an output made of token lines (after any leading white space) the code agrees with
  the specification: the parsed list holds the names of the entries whose name contains
  "mono" in any letter case and whose data ends in \<^verbatim>\<open>.ttf\<close>, equal names collapsed to the
  first, in the order of the output.
\<close>

lemma token_lines_parse:
  "list_all token_line ls \<Longrightarrow> list_all isWhiteSpace pre \<Longrightarrow>
   parseMonospacedFonts (pre @ concat (map render ls)) ''win32'' = extracted ls"
proof -
  assume ls: "list_all token_line ls" and pre: "list_all isWhiteSpace pre"
  have "reaches_line_start None pre"
    by (simp add: reaches_line_start_def line_start_def)
  from loop_lines [OF ls pre this, of "[]"]
  show ?thesis
    by (simp add: parseMonospacedFonts_def extracted_def foldl_Set_add keep_first_dedup)
qed

lemma token_lines_example:
  "parseMonospacedFonts
     ([CHR 0x0D, CHR 0x0A] @ concat (map render
        [Other [] ''HKEY_LOCAL_MACHINE'' '' '' ''Fonts'' [CHR 0x0D, CHR 0x0A],
         Entry ''    '' ''Monofur'' ''    '' ''    '' ''monof55.ttf'' [CHR 0x0D, CHR 0x0A],
         Other ''    '' ''DejaVu'' '' '' ''Sans Mono (TrueType)    REG_SZ    DejaVuSansMono.ttf''
           [CHR 0x0D, CHR 0x0A],
         Entry ''    '' ''Arial'' ''    '' ''    '' ''arial.ttf'' [CHR 0x0D, CHR 0x0A],
         Entry ''    '' ''UbuntuMono'' ''    '' ''    '' ''UbuntuMono-R.otf'' [CHR 0x0D, CHR 0x0A],
         Entry ''    '' ''Monofur'' ''    '' ''    '' ''monof56.ttf'' [CHR 0x0D, CHR 0x0A],
         Entry ''    '' ''PTMono'' ''    '' ''    '' ''PTM55F.ttf'' [CHR 0x0D, CHR 0x0A]]))
     ''win32''
   = [''Monofur'', ''PTMono'']"
proof -
  let ?ls = "[Other [] ''HKEY_LOCAL_MACHINE'' '' '' ''Fonts'' [CHR 0x0D, CHR 0x0A],
         Entry ''    '' ''Monofur'' ''    '' ''    '' ''monof55.ttf'' [CHR 0x0D, CHR 0x0A],
         Other ''    '' ''DejaVu'' '' '' ''Sans Mono (TrueType)    REG_SZ    DejaVuSansMono.ttf''
           [CHR 0x0D, CHR 0x0A],
         Entry ''    '' ''Arial'' ''    '' ''    '' ''arial.ttf'' [CHR 0x0D, CHR 0x0A],
         Entry ''    '' ''UbuntuMono'' ''    '' ''    '' ''UbuntuMono-R.otf'' [CHR 0x0D, CHR 0x0A],
         Entry ''    '' ''Monofur'' ''    '' ''    '' ''monof56.ttf'' [CHR 0x0D, CHR 0x0A],
         Entry ''    '' ''PTMono'' ''    '' ''    '' ''PTM55F.ttf'' [CHR 0x0D, CHR 0x0A]]"
  have wf: "list_all token_line ?ls"
    by code_simp
  have pre: "list_all isWhiteSpace [CHR 0x0D, CHR 0x0A]"
    by code_simp
  have "extracted ?ls = [''Monofur'', ''PTMono'']"
    by code_simp
  with token_lines_parse [OF wf pre] show ?thesis by simp
qed

text \<open>
  Claim C6 at the output of the registry query for three fonts, Consolas, DejaVu Sans
  Mono and Liberation Mono, each with a file that ends in \<^verbatim>\<open>.ttf\<close>. The names of the
  second and the third entry contain "mono", so these two are the entries to extract;
  the code returns no font at all, because the pattern takes for the name one run of
  characters without white space that is followed by \<^verbatim>\<open>REG_SZ\<close>, and the names of the
  registry have several words. On the second output the entry MonoA has empty data and
  the entry MonoB has the file \<^verbatim>\<open>b.ttf\<close>, so MonoB is the entry to extract; the code
  returns MonoA, because the white space after \<^verbatim>\<open>REG_SZ\<close> runs over the line end and the
  next line is taken as the data of MonoA.
\<close>

theorem registry_output_misread:
  "parseMonospacedFonts (registry_header @ concat (map render registry_entries)) ''win32'' = []
   \<and> extracted registry_entries = [''DejaVu Sans Mono (TrueType)'', ''Liberation Mono (TrueType)'']
   \<and> parseMonospacedFonts (registry_header @ concat (map render entries_empty_data)) ''win32''
     = [''MonoA'']
   \<and> extracted entries_empty_data = [''MonoB'']"
  by code_simp

end
